(* ===== verification/Camellia_Prelude.thy ===== *)
theory Camellia_Prelude
  imports Complex_Main "HOL-Library.Word" "HOL-Library.Sublist"
begin

text \<open>
  Shared vocabulary of the development: the machine integer types of the C++ sources, the
  lemma collections, the reachable states of a transition relation with the interface
  through which every state machine of the library establishes its invariant, and the
  facts on words and lists that several components use.
\<close>

unbundle bit_operations_syntax

type_synonym i32 = "32 word"
type_synonym u32 = "32 word"
type_synonym u64 = "64 word"
type_synonym size_t = "64 word"

named_theorems handle_simps "rewriting of sensor handles"
named_theorems wakelock_simps "effect of the wake lock operations on the reference count"
named_theorems queue_simps "effect of the event queue operations"
named_theorems log_simps "effect of logged system calls"

section \<open>Reachable states and invariants\<close>

inductive reachable :: "('s \<Rightarrow> bool) \<Rightarrow> ('s \<Rightarrow> 's \<Rightarrow> bool) \<Rightarrow> 's \<Rightarrow> bool"
  for I :: "'s \<Rightarrow> bool" and T :: "'s \<Rightarrow> 's \<Rightarrow> bool"
  where
    reach_init: "I s \<Longrightarrow> reachable I T s"
  | reach_step: "reachable I T s \<Longrightarrow> T s t \<Longrightarrow> reachable I T t"

text \<open>The contract of a state machine that keeps an invariant.\<close>

locale transition_invariant =
  fixes I :: "'s \<Rightarrow> bool" and T :: "'s \<Rightarrow> 's \<Rightarrow> bool" and P :: "'s \<Rightarrow> bool"
  assumes inv_init: "I s \<Longrightarrow> P s"
    and inv_step: "P s \<Longrightarrow> T s t \<Longrightarrow> P t"
begin

lemma reachable_inv: "reachable I T s \<Longrightarrow> P s"
  by (induction rule: reachable.induct) (auto intro: inv_init inv_step)

lemma steps_inv: "T\<^sup>*\<^sup>* s t \<Longrightarrow> P s \<Longrightarrow> P t"
  by (induction rule: rtranclp_induct) (auto intro: inv_step)

end

lemma reachable_steps: "T\<^sup>*\<^sup>* s t \<Longrightarrow> reachable I T s \<Longrightarrow> reachable I T t"
  by (induction rule: rtranclp_induct) (auto intro: reach_step)

text \<open>
  A state machine with an invariant that implements an abstract one: \<open>abs\<close> maps each of its steps, taken
  in a state with the invariant, to a finite number of abstract steps.
\<close>

locale refinement = transition_invariant I T P
  for I :: "'s \<Rightarrow> bool" and T :: "'s \<Rightarrow> 's \<Rightarrow> bool" and P :: "'s \<Rightarrow> bool" +
  fixes abs_init :: "'t \<Rightarrow> bool" and abs_step :: "'t \<Rightarrow> 't \<Rightarrow> bool" and abs :: "'s \<Rightarrow> 't"
  assumes sim_init: "I s \<Longrightarrow> abs_init (abs s)"
    and sim_step: "P s \<Longrightarrow> T s t \<Longrightarrow> abs_step\<^sup>*\<^sup>* (abs s) (abs t)"
begin

lemma reachable_abs: "reachable I T s \<Longrightarrow> reachable abs_init abs_step (abs s)"
proof (induction rule: reachable.induct)
  case (reach_init s)
  then show ?case by (auto intro: reachable.reach_init sim_init)
next
  case (reach_step s t)
  from reach_step.hyps have "abs_step\<^sup>*\<^sup>* (abs s) (abs t)" by (auto intro: sim_step reachable_inv)
  then show ?case using reach_step.IH by (rule reachable_steps)
qed

lemma abs_inv:
  assumes "transition_invariant abs_init abs_step Q" and "reachable I T s"
  shows "Q (abs s)"
  using assms reachable_abs by (auto intro: transition_invariant.reachable_inv)

end

section \<open>Words\<close>

lemma not_bit_of_less: "(i::'a::len word) < 2 ^ k \<Longrightarrow> k \<le> n \<Longrightarrow> \<not> bit i n"
  using less_mask_eq [of i k] by (metis bit_and_iff bit_mask_iff leD)

lemma sint_eq_iff: "sint (a :: i32) = sint b \<longleftrightarrow> a = b"
  by (rule word_eq_iff_signed [symmetric])

lemma unat_of_nat_size [simp]: "n < 2 ^ 64 \<Longrightarrow> unat (of_nat n :: size_t) = n"
  by (simp add: unat_of_nat take_bit_nat_eq_self)

lemma of_nat_less_size: "n < 2 ^ 64 \<Longrightarrow> m < 2 ^ 64 \<Longrightarrow> (of_nat n :: size_t) < of_nat m \<longleftrightarrow> n < m"
  by (simp add: word_less_nat_alt)

lemma of_nat_size_inject: "n < 2 ^ 64 \<Longrightarrow> m < 2 ^ 64 \<Longrightarrow> (of_nat n :: size_t) = of_nat m \<longleftrightarrow> n = m"
  by (metis unat_of_nat_size)

lemma unat_plus_size: "unat (a :: size_t) + unat b < 2 ^ 64 \<Longrightarrow> unat (a + b) = unat a + unat b"
  by (simp add: unat_plus_if_size size_word.rep_eq)

lemma unat_minus_size: "(b :: size_t) \<le> a \<Longrightarrow> unat (a - b) = unat a - unat b"
  by (simp add: unat_sub word_le_nat_alt)

lemma unat_min: "unat (min a (b :: size_t)) = min (unat a) (unat b)"
  by (simp add: min_def word_le_nat_alt)

lemma unat_Suc_size: "n < 2 ^ 64 - 1 \<Longrightarrow> unat (of_nat n + 1 :: size_t) = Suc n"
  using unat_of_nat_size [of "Suc n"] by (simp add: add.commute)

section \<open>Lists\<close>

lemma prefix_trans_append [intro]: "prefix xs ys \<Longrightarrow> prefix xs (ys @ zs)"
  by (auto simp: prefix_def)

lemma upt_add_Suc: "[k..<k + Suc n] = k # [Suc k..<Suc k + n]"
  using upt_conv_Cons [of k "k + Suc n"] by simp

lemma upt_Suc_Cons: "k \<le> j \<Longrightarrow> [k..<Suc j] = k # [Suc k..<Suc j]"
  using upt_conv_Cons [of k "Suc j"] by simp

lemma length_filter_take_drop:
  "length (filter P (take n xs)) + length (filter P (drop n xs)) = length (filter P xs)"
  by (metis append_take_drop_id filter_append length_append)

end
