(* ===== verification/Std_Map.thy ===== *)
theory Std_Map
  imports Camellia_Prelude
begin

text \<open>
  The ordered associative container \<open>std::map\<close> of the C++ standard library, as an
  association list with strictly increasing keys: \<open>m[k] = v\<close> is \<open>smap_assign\<close>,
  \<open>m.erase(k)\<close> is \<open>smap_erase\<close>, \<open>m.find(k)\<close> is \<open>map_of\<close>, and iteration visits
  the list from left to right. \<open>std_map_spec\<close> is the interface its clients rely on.
\<close>

type_synonym ('k, 'v) std_map = "('k \<times> 'v) list"

fun smap_assign :: "'k::linorder \<Rightarrow> 'v \<Rightarrow> ('k, 'v) std_map \<Rightarrow> ('k, 'v) std_map" where
  "smap_assign k v [] = [(k, v)]"
| "smap_assign k v ((k', v') # m) =
     (if k < k' then (k, v) # (k', v') # m
      else if k = k' then (k, v) # m
      else (k', v') # smap_assign k v m)"

fun smap_erase :: "'k::linorder \<Rightarrow> ('k, 'v) std_map \<Rightarrow> ('k, 'v) std_map" where
  "smap_erase k [] = []"
| "smap_erase k ((k', v') # m) = (if k = k' then m else (k', v') # smap_erase k m)"

definition smap_ok :: "('k::linorder, 'v) std_map \<Rightarrow> bool" where
  "smap_ok m \<longleftrightarrow> sorted_wrt (<) (map fst m)"

locale std_map_spec =
  fixes empty :: 'm
    and assign :: "'k \<Rightarrow> 'v \<Rightarrow> 'm \<Rightarrow> 'm"
    and erase :: "'k \<Rightarrow> 'm \<Rightarrow> 'm"
    and find :: "'m \<Rightarrow> 'k \<Rightarrow> 'v option"
    and ok :: "'m \<Rightarrow> bool"
  assumes find_empty: "find empty = Map.empty"
    and find_assign: "ok m \<Longrightarrow> find (assign k v m) = (find m)(k \<mapsto> v)"
    and find_erase: "ok m \<Longrightarrow> find (erase k m) = (find m)(k := None)"
    and ok_empty: "ok empty"
    and ok_assign: "ok m \<Longrightarrow> ok (assign k v m)"
    and ok_erase: "ok m \<Longrightarrow> ok (erase k m)"
begin

text \<open>A batch of assignments, as the loops over sensor lists perform them.\<close>

lemma ok_fold_assign: "ok m \<Longrightarrow> ok (fold (\<lambda>x. assign (key x) (val x)) xs m)"
  by (induction xs arbitrary: m) (auto intro: ok_assign)

lemma find_fold_assign:
  "ok m \<Longrightarrow> find (fold (\<lambda>x. assign (key x) (val x)) xs m) k =
     (case filter (\<lambda>x. key x = k) (rev xs) of [] \<Rightarrow> find m k | x # _ \<Rightarrow> Some (val x))"
proof (induction xs rule: rev_induct)
  case Nil
  then show ?case by simp
next
  case (snoc x xs)
  then show ?case by (simp add: find_assign ok_fold_assign)
qed

lemma ok_fold_erase: "ok m \<Longrightarrow> ok (fold erase ks m)"
  by (induction ks arbitrary: m) (auto intro: ok_erase)

lemma find_fold_erase:
  "ok m \<Longrightarrow> find (fold erase ks m) k = (if k \<in> set ks then None else find m k)"
  by (induction ks arbitrary: m) (auto simp: find_erase ok_erase)

end

section \<open>The container satisfies its interface\<close>

lemma smap_ok_Cons [simp]:
  "smap_ok ((k, v) # m) \<longleftrightarrow> (\<forall>k' \<in> fst ` set m. k < k') \<and> smap_ok m"
  by (auto simp: smap_ok_def)

lemma smap_ok_Nil [simp]: "smap_ok []"
  by (simp add: smap_ok_def)

lemma fst_set_smap_assign [simp]: "fst ` set (smap_assign k v m) = insert k (fst ` set m)"
  by (induction k v m rule: smap_assign.induct) (simp_all add: insert_commute)

lemma fst_set_smap_erase_subset: "fst ` set (smap_erase k m) \<subseteq> fst ` set m"
  by (induction k m rule: smap_erase.induct) auto

lemma set_smap_erase_subset: "set (smap_erase k m) \<subseteq> set m"
  by (induction k m rule: smap_erase.induct) auto

lemma set_smap_assign_subset: "set (smap_assign k v m) \<subseteq> insert (k, v) (set m)"
  by (induction k v m rule: smap_assign.induct) auto

lemma smap_ok_assign: "smap_ok m \<Longrightarrow> smap_ok (smap_assign k v m)"
  by (induction k v m rule: smap_assign.induct) (force simp: not_less le_less)+

lemma smap_ok_erase: "smap_ok m \<Longrightarrow> smap_ok (smap_erase k m)"
  by (induction k m rule: smap_erase.induct) (use fst_set_smap_erase_subset in fastforce)+

lemma map_of_above: "\<forall>k' \<in> fst ` set m. (k::'k::linorder) < k' \<Longrightarrow> map_of m k = None"
  by (auto simp: map_of_eq_None_iff)

lemma map_of_smap_assign: "smap_ok m \<Longrightarrow> map_of (smap_assign k v m) = (map_of m)(k \<mapsto> v)"
  by (induction m) auto

lemma map_of_smap_erase: "smap_ok m \<Longrightarrow> map_of (smap_erase k m) = (map_of m)(k := None)"
proof (induction m)
  case Nil
  then show ?case by simp
next
  case (Cons p m)
  then show ?case by (cases p) (auto simp: map_of_above fun_eq_iff)
qed

lemma smap_erase_absent: "map_of m k = None \<Longrightarrow> smap_erase k m = m"
  by (induction k m rule: smap_erase.induct) (auto split: if_splits)

lemma length_smap_assign_new: "map_of m k = None \<Longrightarrow> length (smap_assign k v m) = Suc (length m)"
  by (induction k v m rule: smap_assign.induct) (auto split: if_splits)

interpretation sm: std_map_spec "[]" smap_assign smap_erase map_of smap_ok
  by unfold_locales
    (simp_all add: map_of_smap_assign map_of_smap_erase smap_ok_assign smap_ok_erase)

lemma smap_ok_distinct: "smap_ok m \<Longrightarrow> distinct (map fst m)"
  by (auto simp: smap_ok_def strict_sorted_iff)

lemma in_set_iff_find: "smap_ok m \<Longrightarrow> (k, v) \<in> set m \<longleftrightarrow> map_of m k = Some v"
  by (metis map_of_eq_Some_iff smap_ok_distinct)

lemma smap_ok_sorted: "smap_ok m \<Longrightarrow> sorted (map fst m)"
  by (auto simp: smap_ok_def strict_sorted_iff)

end
