(* ===== verification/Sensor_Handles.thy ===== *)
theory Sensor_Handles
  imports Camellia_Prelude
begin

text \<open>
  The sensor handles of \<open>src/sensors/HalProxy.cpp\<close>: the top byte of a 32 bit handle
  names the sub-HAL that owns the sensor, the lower 24 bits are the handle the sub-HAL
  itself uses. The mask \<open>kSensorHandleSubHalIndexMask\<close> is declared in a header outside
  the repository and is a parameter. \<open>handle_codec\<close> is the interface the rest of the
  proxy relies on.
\<close>

section \<open>Definitions\<close>

definition kBitsAfterSubHalIndex :: nat where
  "kBitsAfterSubHalIndex = 24"

definition setSubHalIndex :: "i32 \<Rightarrow> size_t \<Rightarrow> i32" where
  "setSubHalIndex sensorHandle subHalIndex =
     sensorHandle OR push_bit kBitsAfterSubHalIndex (ucast subHalIndex)"

text \<open>\<open>HalProxyCallback.cpp\<close> has a copy of the constant and of the function.\<close>

definition callback_kBitsAfterSubHalIndex :: nat where
  "callback_kBitsAfterSubHalIndex = 24"

definition callback_setSubHalIndex :: "i32 \<Rightarrow> size_t \<Rightarrow> i32" where
  "callback_setSubHalIndex sensorHandle subHalIndex =
     sensorHandle OR push_bit callback_kBitsAfterSubHalIndex (ucast subHalIndex)"

text \<open>The shift is the arithmetic one of \<open>int32_t\<close>, the cast to \<open>size_t\<close> extends the sign.\<close>

definition extractSubHalIndex :: "i32 \<Rightarrow> size_t" where
  "extractSubHalIndex sensorHandle = scast (signed_drop_bit kBitsAfterSubHalIndex sensorHandle)"

definition clearSubHalIndex :: "i32 \<Rightarrow> i32 \<Rightarrow> i32" where
  "clearSubHalIndex kSensorHandleSubHalIndexMask sensorHandle =
     sensorHandle AND NOT kSensorHandleSubHalIndexMask"

definition subHalIndexIsClear :: "i32 \<Rightarrow> i32 \<Rightarrow> bool" where
  "subHalIndexIsClear kSensorHandleSubHalIndexMask sensorHandle \<longleftrightarrow>
     sensorHandle AND kSensorHandleSubHalIndexMask = 0"

definition isSubHalIndexValid :: "size_t \<Rightarrow> i32 \<Rightarrow> bool" where
  "isSubHalIndexValid mSubHalList_size sensorHandle \<longleftrightarrow>
     extractSubHalIndex sensorHandle < mSubHalList_size"

text \<open>\<open>int64_t\<close> division truncates towards zero.\<close>

definition msFromNs :: "int \<Rightarrow> int" where
  "msFromNs nanos = (let nanosecondsInAMillsecond = 1000000
     in sgn nanos * (\<bar>nanos\<bar> div nanosecondsInAMillsecond))"

text \<open>The value the header documents for the mask: the first byte of the handle.\<close>

abbreviation first_byte_mask :: i32 where
  "first_byte_mask \<equiv> 0xFF000000"

section \<open>The interface\<close>

locale handle_codec =
  fixes tag :: "'h \<Rightarrow> 'i \<Rightarrow> 'h"
    and owner :: "'h \<Rightarrow> 'i"
    and strip :: "'h \<Rightarrow> 'h"
    and bare :: "'h \<Rightarrow> bool"
    and fits :: "'i \<Rightarrow> bool"
  assumes owner_tag: "bare h \<Longrightarrow> fits i \<Longrightarrow> owner (tag h i) = i"
    and strip_tag: "bare h \<Longrightarrow> strip (tag h i) = h"
begin

lemma tag_eq_iff:
  assumes "bare h" "fits i" "bare h'" "fits i'"
  shows "tag h i = tag h' i' \<longleftrightarrow> h = h' \<and> i = i'"
  using assms by (metis owner_tag strip_tag)

lemma tag_inj: "inj_on (\<lambda>(h, i). tag h i) ({h. bare h} \<times> {i. fits i})"
  by (auto simp: inj_on_def tag_eq_iff)

lemma owners_disjoint:
  assumes "fits i" "fits j" "i \<noteq> j"
  shows "(\<lambda>h. tag h i) ` {h. bare h} \<inter> (\<lambda>h. tag h j) ` {h. bare h} = {}"
  using assms by (auto simp: tag_eq_iff)

end

section \<open>Bits of a handle\<close>

lemma callback_setSubHalIndex_eq: "callback_setSubHalIndex = setSubHalIndex"
  by (simp add: fun_eq_iff callback_setSubHalIndex_def setSubHalIndex_def
      callback_kBitsAfterSubHalIndex_def kBitsAfterSubHalIndex_def)

lemma first_byte_mask_eq: "first_byte_mask = push_bit 24 (mask 8)"
  by (simp add: mask_eq_exp_minus_1 push_bit_eq_mult)

lemma subHalIndexIsClear_bits:
  "subHalIndexIsClear first_byte_mask h \<longleftrightarrow> (\<forall>n. 24 \<le> n \<longrightarrow> \<not> bit h n)"
proof -
  have "(h AND first_byte_mask = 0) \<longleftrightarrow> (\<forall>n. 24 \<le> n \<and> n < 32 \<longrightarrow> \<not> bit h n)"
    unfolding first_byte_mask_eq by (auto simp: bit_eq_iff [of "h AND _"] bit_simps)
  also have "\<dots> \<longleftrightarrow> (\<forall>n. 24 \<le> n \<longrightarrow> \<not> bit h n)"
    using bit_imp_le_length [of h] by auto
  finally show ?thesis by (simp add: subHalIndexIsClear_def)
qed

lemma extract_set:
  assumes "subHalIndexIsClear first_byte_mask h" and "i < 128"
  shows "extractSubHalIndex (setSubHalIndex h i) = i"
proof (rule bit_word_eqI)
  fix n :: nat
  assume "n < LENGTH(64)"
  show "bit (extractSubHalIndex (setSubHalIndex h i)) n = bit i n"
    using assms not_bit_of_less [of i 7]
    unfolding extractSubHalIndex_def setSubHalIndex_def subHalIndexIsClear_bits
      kBitsAfterSubHalIndex_def
    by (auto simp: bit_simps)
qed

lemma clear_set:
  assumes "subHalIndexIsClear first_byte_mask h"
  shows "clearSubHalIndex first_byte_mask (setSubHalIndex h i) = h"
proof (rule bit_word_eqI)
  fix n :: nat
  assume "n < LENGTH(32)"
  then show "bit (clearSubHalIndex first_byte_mask (setSubHalIndex h i)) n = bit h n"
    using assms [unfolded subHalIndexIsClear_bits]
    unfolding clearSubHalIndex_def setSubHalIndex_def kBitsAfterSubHalIndex_def
      first_byte_mask_eq
    by (auto simp: bit_simps)
qed

interpretation handles: handle_codec setSubHalIndex extractSubHalIndex
  "clearSubHalIndex first_byte_mask" "subHalIndexIsClear first_byte_mask" "\<lambda>i. i < 128"
  by unfold_locales (simp_all add: extract_set clear_set)

lemmas handle_facts [handle_simps] =
  handles.owner_tag handles.strip_tag handles.tag_eq_iff callback_setSubHalIndex_eq

lemma cleared_is_clear: "subHalIndexIsClear m (clearSubHalIndex m h)"
  by (rule bit_eqI [THEN iffD2 [OF subHalIndexIsClear_def]])
    (auto simp: clearSubHalIndex_def bit_simps)

text \<open>A negative handle (top bit set) never names a sub-HAL of a list that fits in memory.\<close>

lemma negative_handle_invalid:
  assumes "bit h 31" and "n \<le> 2 ^ 63"
  shows "\<not> isSubHalIndexValid n h"
proof -
  have "bit (extractSubHalIndex h) 63"
    using assms(1) by (simp add: extractSubHalIndex_def kBitsAfterSubHalIndex_def bit_simps)
  then have "\<not> extractSubHalIndex h < 2 ^ 63"
    using not_bit_of_less [of "extractSubHalIndex h" 63 63] by blast
  with assms(2) show ?thesis by (auto simp: isSubHalIndexValid_def)
qed

lemma set_high_index_negative:
  assumes "bit i 7"
  shows "bit (setSubHalIndex h i) 31"
  using assms by (simp add: setSubHalIndex_def kBitsAfterSubHalIndex_def bit_simps)

end
