(* ===== verification/Sensor_List.thy ===== *)
theory Sensor_List
  imports Std_Map Sensor_Handles
begin

text \<open>
  How \<open>src/sensors/HalProxy.cpp\<close> collects the sensors of its sub-HALs: the sensor record,
  the patch of the Xiaomi pick-up sensor, the choice of the one sub-HAL that keeps direct
  channels, the static list built by \<open>initializeSensorList\<close>, the two list queries and the
  dynamic sensors. The numeric values of the HIDL enumerations and of the constants of
  \<open>HalProxy.h\<close> are outside the repository: they are the fields of \<open>sensor_consts\<close>.
  What a sub-HAL passes to the \<open>getSensorsList\<close> callback is an argument.
\<close>

section \<open>Data\<close>

record sensor_consts =
  WAKE_UP :: u32
  MASK_DIRECT_REPORT :: u32
  MASK_DIRECT_CHANNEL :: u32
  PICK_UP_GESTURE :: i32
  SENSOR_STRING_TYPE_PICK_UP_GESTURE :: string
  ADDITIONAL_INFO :: i32
  kSensorHandleSubHalIndexMask :: i32
  kMaxSizePendingWriteEventsQueue :: size_t
  kWakelockTimeoutNs :: int

record SensorInfo =
  sensorHandle :: i32
  sensorName :: string
  sensorType :: i32
  typeAsString :: string
  maxRange :: real
  flags :: u32

text \<open>
  The sub-HALs are the positions of \<open>mSubHalList\<close>; the pointer \<open>mDirectChannelSubHal\<close> is
  such a position or null. A \<open>std::map<int32_t, SensorInfo>\<close> is keyed by the signed value.
\<close>

record sensors_state =
  mSensors :: "(int, SensorInfo) std_map"
  mDynamicSensors :: "(int, SensorInfo) std_map"
  mDirectChannelSubHal :: "nat option"

definition xiaomi_pick_up :: string where
  "xiaomi_pick_up = ''xiaomi pick up sensor''"

definition patchXiaomiPickupSensor :: "sensor_consts \<Rightarrow> SensorInfo \<Rightarrow> bool \<times> SensorInfo" where
  "patchXiaomiPickupSensor c sensor =
     (if typeAsString sensor \<noteq> xiaomi_pick_up then (True, sensor)
      else if flags sensor AND WAKE_UP c = 0 then (False, sensor)
      else (True, sensor\<lparr>sensorType := PICK_UP_GESTURE c,
                         typeAsString := SENSOR_STRING_TYPE_PICK_UP_GESTURE c,
                         maxRange := 1\<rparr>))"

definition direct_mask :: "sensor_consts \<Rightarrow> u32" where
  "direct_mask c = MASK_DIRECT_REPORT c OR MASK_DIRECT_CHANNEL c"

definition setDirectChannelFlags ::
  "sensor_consts \<Rightarrow> SensorInfo \<Rightarrow> nat \<Rightarrow> nat option \<Rightarrow> SensorInfo \<times> nat option" where
  "setDirectChannelFlags c sensorInfo subHal direct =
     (let sensorSupportsDirectChannel = (flags sensorInfo AND direct_mask c \<noteq> 0)
      in if direct = None \<and> sensorSupportsDirectChannel then (sensorInfo, Some subHal)
         else if direct \<noteq> None \<and> direct \<noteq> Some subHal
         then (sensorInfo\<lparr>flags := flags sensorInfo AND NOT (direct_mask c)\<rparr>, direct)
         else (sensorInfo, direct))"

section \<open>The static sensor list\<close>

text \<open>The body of the loop in the \<open>getSensorsList\<close> callback, then the two nested loops.\<close>

definition load_sensor ::
  "sensor_consts \<Rightarrow> nat \<Rightarrow> SensorInfo \<Rightarrow> 'a sensors_state_scheme \<Rightarrow> 'a sensors_state_scheme" where
  "load_sensor c subHalIndex sensor s =
     (if \<not> subHalIndexIsClear (kSensorHandleSubHalIndexMask c) (sensorHandle sensor) then s
      else
        let sensor = sensor\<lparr>sensorHandle := setSubHalIndex (sensorHandle sensor) (of_nat subHalIndex)\<rparr>;
            (sensor, direct) = setDirectChannelFlags c sensor subHalIndex (mDirectChannelSubHal s);
            s = s\<lparr>mDirectChannelSubHal := direct\<rparr>;
            (keep, sensor) = patchXiaomiPickupSensor c sensor
        in if \<not> keep then s
           else s\<lparr>mSensors := smap_assign (sint (sensorHandle sensor)) sensor (mSensors s)\<rparr>)"

fun initializeSensorList_from ::
  "sensor_consts \<Rightarrow> nat \<Rightarrow> SensorInfo list list \<Rightarrow> 'a sensors_state_scheme \<Rightarrow> 'a sensors_state_scheme" where
  "initializeSensorList_from c subHalIndex [] s = s"
| "initializeSensorList_from c subHalIndex (list # ls) s =
     initializeSensorList_from c (Suc subHalIndex) ls (fold (load_sensor c subHalIndex) list s)"

definition initializeSensorList ::
  "sensor_consts \<Rightarrow> SensorInfo list list \<Rightarrow> 'a sensors_state_scheme \<Rightarrow> 'a sensors_state_scheme" where
  "initializeSensorList c ls s = initializeSensorList_from c 0 ls s"

definition getSensorsList_2_1 :: "'a sensors_state_scheme \<Rightarrow> SensorInfo list" where
  "getSensorsList_2_1 s = map snd (mSensors s)"

text \<open>\<open>convertToOldSensorInfo\<close> belongs to the multi-HAL library: an argument.\<close>

definition getSensorsList :: "(SensorInfo \<Rightarrow> 'old) \<Rightarrow> 'a sensors_state_scheme \<Rightarrow> 'old list" where
  "getSensorsList convertToOldSensorInfo s = map (convertToOldSensorInfo \<circ> snd) (mSensors s)"

section \<open>Dynamic sensors\<close>

text \<open>
  Both callbacks return the new state and the list passed on to the framework callback.
  The \<open>int32_t\<close> index is converted to \<open>size_t\<close> by sign extension.
\<close>

fun onDynamicSensorsConnected ::
  "sensor_consts \<Rightarrow> SensorInfo list \<Rightarrow> i32 \<Rightarrow> 'a sensors_state_scheme \<Rightarrow> 'a sensors_state_scheme \<times> SensorInfo list" where
  "onDynamicSensorsConnected c [] subHalIndex s = (s, [])"
| "onDynamicSensorsConnected c (sensor # added) subHalIndex s =
     (if \<not> subHalIndexIsClear (kSensorHandleSubHalIndexMask c) (sensorHandle sensor)
      then onDynamicSensorsConnected c added subHalIndex s
      else
        let sensor = sensor\<lparr>sensorHandle := setSubHalIndex (sensorHandle sensor) (scast subHalIndex)\<rparr>;
            s = s\<lparr>mDynamicSensors := smap_assign (sint (sensorHandle sensor)) sensor (mDynamicSensors s)\<rparr>;
            (s, sensors) = onDynamicSensorsConnected c added subHalIndex s
        in (s, sensor # sensors))"

fun onDynamicSensorsDisconnected ::
  "sensor_consts \<Rightarrow> i32 list \<Rightarrow> i32 \<Rightarrow> 'a sensors_state_scheme \<Rightarrow> 'a sensors_state_scheme \<times> i32 list" where
  "onDynamicSensorsDisconnected c [] subHalIndex s = (s, [])"
| "onDynamicSensorsDisconnected c (h # removed) subHalIndex s =
     (if \<not> subHalIndexIsClear (kSensorHandleSubHalIndexMask c) h
      then onDynamicSensorsDisconnected c removed subHalIndex s
      else
        let h = setSubHalIndex h (scast subHalIndex)
        in if map_of (mDynamicSensors s) (sint h) \<noteq> None
           then let s = s\<lparr>mDynamicSensors := smap_erase (sint h) (mDynamicSensors s)\<rparr>;
                    (s, hs) = onDynamicSensorsDisconnected c removed subHalIndex s
                in (s, h # hs)
           else onDynamicSensorsDisconnected c removed subHalIndex s)"


section \<open>Specification\<close>

text \<open>The sensors in the order the loops visit them, each with the index of its sub-HAL.\<close>

definition sensor_stream :: "nat \<Rightarrow> SensorInfo list list \<Rightarrow> (nat \<times> SensorInfo) list" where
  "sensor_stream k ls = concat (map (\<lambda>(i, l). map (Pair i) l) (enumerate k ls))"

text \<open>What it means for the proxy to publish \<open>x\<close> for the sensor \<open>raw\<close> of sub-HAL \<open>i\<close>.\<close>

definition publishes :: "sensor_consts \<Rightarrow> nat \<Rightarrow> SensorInfo \<Rightarrow> SensorInfo \<Rightarrow> bool" where
  "publishes c i raw x \<longleftrightarrow>
     subHalIndexIsClear (kSensorHandleSubHalIndexMask c) (sensorHandle raw) \<and>
     sensorHandle x = setSubHalIndex (sensorHandle raw) (of_nat i) \<and>
     sensorName x = sensorName raw \<and>
     flags x AND NOT (direct_mask c) = flags raw AND NOT (direct_mask c) \<and>
     (if typeAsString raw = xiaomi_pick_up
      then flags raw AND WAKE_UP c \<noteq> 0 \<and> sensorType x = PICK_UP_GESTURE c \<and>
        typeAsString x = SENSOR_STRING_TYPE_PICK_UP_GESTURE c \<and> maxRange x = 1
      else sensorType x = sensorType raw \<and> typeAsString x = typeAsString raw \<and>
        maxRange x = maxRange raw)"

definition publishable :: "sensor_consts \<Rightarrow> SensorInfo \<Rightarrow> bool" where
  "publishable c raw \<longleftrightarrow>
     subHalIndexIsClear (kSensorHandleSubHalIndexMask c) (sensorHandle raw) \<and>
     (typeAsString raw = xiaomi_pick_up \<longrightarrow> flags raw AND WAKE_UP c \<noteq> 0)"

text \<open>The flag bits of the interface: the wake-up bit is not one of the direct channel bits.\<close>

definition flag_bits_ok :: "sensor_consts \<Rightarrow> bool" where
  "flag_bits_ok c \<longleftrightarrow> WAKE_UP c AND direct_mask c = 0"

definition sensors_inv :: "sensor_consts \<Rightarrow> (nat \<times> SensorInfo) set \<Rightarrow> 'a sensors_state_scheme \<Rightarrow> bool" where
  "sensors_inv c A s \<longleftrightarrow> smap_ok (mSensors s) \<and>
     (\<forall>(k, x) \<in> set (mSensors s). k = sint (sensorHandle x) \<and>
        (\<exists>(i, raw) \<in> A. publishes c i raw x \<and>
           (flags x AND direct_mask c \<noteq> 0 \<longrightarrow> mDirectChannelSubHal s = Some i)))"

section \<open>Loading one sensor\<close>

lemma sensor_stream_Nil [simp]: "sensor_stream k [] = []"
  by (simp add: sensor_stream_def)

lemma sensor_stream_Cons [simp]:
  "sensor_stream k (l # ls) = map (Pair k) l @ sensor_stream (Suc k) ls"
  by (simp add: sensor_stream_def)

lemma set_sensor_stream:
  "(i, x) \<in> set (sensor_stream k ls) \<longleftrightarrow> k \<le> i \<and> i < k + length ls \<and> x \<in> set (ls ! (i - k))"
  by (force simp: sensor_stream_def in_set_enumerate_eq)

lemma initializeSensorList_stream:
  "initializeSensorList c ls s = fold (\<lambda>(i, x). load_sensor c i x) (sensor_stream 0 ls) s"
proof -
  have "initializeSensorList_from c k ls s = fold (\<lambda>(i, x). load_sensor c i x) (sensor_stream k ls) s"
    for k
    by (induction c k ls s rule: initializeSensorList_from.induct) (simp_all add: fold_map comp_def)
  then show ?thesis by (simp add: initializeSensorList_def)
qed

lemma and_not_absorb: "(a AND NOT m) AND NOT m = a AND NOT (m :: u32)"
  by (rule bit_eqI) (auto simp: bit_simps)

lemma wake_bit_kept: "flag_bits_ok c \<Longrightarrow> (f AND NOT (direct_mask c)) AND WAKE_UP c = f AND WAKE_UP c"
  by (rule bit_eqI) (auto simp: flag_bits_ok_def bit_simps bit_eq_iff [of "WAKE_UP c AND _"])

lemma direct_bits_gone: "(f AND NOT m) AND m = (0 :: u32)"
  by (rule bit_eqI) (auto simp: bit_simps)

lemmas load_sensor_defs =
  load_sensor_def setDirectChannelFlags_def patchXiaomiPickupSensor_def Let_def

lemma load_sensor_direct:
  "mDirectChannelSubHal (load_sensor c i raw s) =
     (if mDirectChannelSubHal s = None
         \<and> subHalIndexIsClear (kSensorHandleSubHalIndexMask c) (sensorHandle raw)
         \<and> flags raw AND direct_mask c \<noteq> 0
      then Some i else mDirectChannelSubHal s)"
  by (simp add: load_sensor_defs)

text \<open>
  One step either stores nothing, or stores a sensor that is published for \<open>raw\<close> and whose
  direct channel flags survive only in the chosen sub-HAL.
\<close>

lemma load_sensor_cases:
  assumes "flag_bits_ok c"
  obtains (skip) "\<not> publishable c raw" "mSensors (load_sensor c i raw s) = mSensors s"
  | (store) x where "publishable c raw" "publishes c i raw x"
      "mSensors (load_sensor c i raw s) = smap_assign (sint (sensorHandle x)) x (mSensors s)"
      "flags x AND direct_mask c \<noteq> 0 \<longrightarrow> mDirectChannelSubHal (load_sensor c i raw s) = Some i"
proof (cases "publishable c raw")
  case False
  with that(1) show ?thesis
    by (auto simp: load_sensor_defs publishable_def wake_bit_kept [OF assms] split: if_splits)
next
  case True
  define f where "f = (if mDirectChannelSubHal s \<noteq> None \<and> mDirectChannelSubHal s \<noteq> Some i
    then flags raw AND NOT (direct_mask c) else flags raw)"
  define y where "y = raw\<lparr>sensorHandle := setSubHalIndex (sensorHandle raw) (of_nat i), flags := f\<rparr>"
  define x where "x = snd (patchXiaomiPickupSensor c y)"
  have f: "f AND NOT (direct_mask c) = flags raw AND NOT (direct_mask c)"
    "f AND WAKE_UP c = flags raw AND WAKE_UP c"
    by (simp_all add: f_def and_not_absorb wake_bit_kept [OF assms])
  show ?thesis
  proof (rule that(2) [of x])
    show "publishes c i raw x"
      using True f by (simp add: publishes_def publishable_def x_def y_def patchXiaomiPickupSensor_def)
    show "mSensors (load_sensor c i raw s) = smap_assign (sint (sensorHandle x)) x (mSensors s)"
      using True f
      by (auto simp: load_sensor_defs publishable_def x_def y_def f_def wake_bit_kept [OF assms])
    show "flags x AND direct_mask c \<noteq> 0 \<longrightarrow> mDirectChannelSubHal (load_sensor c i raw s) = Some i"
      using True
      by (auto simp: load_sensor_direct publishable_def x_def y_def f_def
          patchXiaomiPickupSensor_def direct_bits_gone)
  qed (fact True)
qed


section \<open>The whole list\<close>

lemma sensors_inv_load:
  assumes c: "flag_bits_ok c" and inv: "sensors_inv c A s" and A: "(i, raw) \<in> A"
  shows "sensors_inv c A (load_sensor c i raw s)"
proof -
  let ?s = "load_sensor c i raw s"
  have keep: "mDirectChannelSubHal s = Some j \<Longrightarrow> mDirectChannelSubHal ?s = Some j" for j
    by (simp add: load_sensor_direct)
  from c show ?thesis
  proof (cases rule: load_sensor_cases [of c raw i s])
    case skip
    with inv keep show ?thesis by (fastforce simp: sensors_inv_def)
  next
    case (store x)
    have "smap_ok (mSensors ?s)"
      using inv store by (simp add: sensors_inv_def smap_ok_assign)
    moreover have "k = sint (sensorHandle y) \<and> (\<exists>(i, raw) \<in> A. publishes c i raw y \<and>
        (flags y AND direct_mask c \<noteq> 0 \<longrightarrow> mDirectChannelSubHal ?s = Some i))"
      if "(k, y) \<in> set (mSensors ?s)" for k y
    proof (cases "(k, y) \<in> set (mSensors s)")
      case True
      with inv keep show ?thesis by (fastforce simp: sensors_inv_def)
    next
      case False
      with that store have "k = sint (sensorHandle x)" "y = x"
        using set_smap_assign_subset by fastforce+
      with store A show ?thesis by auto
    qed
    ultimately show ?thesis by (auto simp: sensors_inv_def)
  qed
qed

lemma sensors_inv_fold:
  assumes "flag_bits_ok c" and "sensors_inv c A s" and "set xs \<subseteq> A"
  shows "sensors_inv c A (fold (\<lambda>(i, x). load_sensor c i x) xs s)"
  by (rule fold_invariant [where Q = "\<lambda>p. p \<in> A"])
    (use assms in \<open>auto intro: sensors_inv_load\<close>)

lemma sensors_inv_initialize:
  assumes "flag_bits_ok c" and "mSensors s = []"
  shows "sensors_inv c (set (sensor_stream 0 ls)) (initializeSensorList c ls s)"
  unfolding initializeSensorList_stream
  by (rule sensors_inv_fold) (use assms in \<open>auto simp: sensors_inv_def\<close>)

lemma load_sensor_keeps_key:
  assumes "flag_bits_ok c" and "k \<in> fst ` set (mSensors s)"
  shows "k \<in> fst ` set (mSensors (load_sensor c i raw s))"
  by (rule load_sensor_cases [OF assms(1), of raw i s]) (use assms(2) in auto)

lemma load_sensor_adds_key:
  assumes "flag_bits_ok c" and "publishable c raw"
  shows "sint (setSubHalIndex (sensorHandle raw) (of_nat i)) \<in> fst ` set (mSensors (load_sensor c i raw s))"
  by (rule load_sensor_cases [OF assms(1), of raw i s]) (use assms(2) in \<open>auto simp: publishes_def\<close>)

lemma initialize_has_key:
  assumes c: "flag_bits_ok c" and p: "publishable c raw" and i: "i < length ls" "raw \<in> set (ls ! i)"
  shows "sint (setSubHalIndex (sensorHandle raw) (of_nat i))
    \<in> fst ` set (mSensors (initializeSensorList c ls s))" (is "?k \<in> _")
proof -
  have "(i, raw) \<in> set (sensor_stream 0 ls)" using i by (simp add: set_sensor_stream)
  then obtain xs ys where xs: "sensor_stream 0 ls = xs @ (i, raw) # ys"
    by (auto simp: in_set_conv_decomp)
  let ?f = "fold (\<lambda>(i, x). load_sensor c i x)"
  have "?k \<in> fst ` set (mSensors (?f ys (load_sensor c i raw (?f xs s))))"
    by (rule fold_invariant [where Q = "\<lambda>_. True"])
      (auto intro: load_sensor_adds_key [OF c p] load_sensor_keeps_key [OF c] simp del: fst_set_smap_assign)
  then show ?thesis by (simp add: initializeSensorList_stream xs)
qed

lemma in_getSensorsList: "x \<in> set (getSensorsList_2_1 s) \<longleftrightarrow> (\<exists>k. (k, x) \<in> set (mSensors s))"
  by (force simp: getSensorsList_2_1_def)

lemma initialize_entry:
  assumes "flag_bits_ok c" and "mSensors s = []" and "(k, x) \<in> set (mSensors (initializeSensorList c ls s))"
  obtains i raw where "k = sint (sensorHandle x)" "i < length ls" "raw \<in> set (ls ! i)"
    "publishes c i raw x"
    "flags x AND direct_mask c \<noteq> 0 \<longrightarrow> mDirectChannelSubHal (initializeSensorList c ls s) = Some i"
proof -
  from sensors_inv_initialize [OF assms(1,2), of ls] assms(3)
  have "k = sint (sensorHandle x) \<and> (\<exists>(i, raw) \<in> set (sensor_stream 0 ls). publishes c i raw x \<and>
      (flags x AND direct_mask c \<noteq> 0 \<longrightarrow> mDirectChannelSubHal (initializeSensorList c ls s) = Some i))"
    unfolding sensors_inv_def by blast
  with that show ?thesis by (auto simp: set_sensor_stream)
qed

lemma published_handle:
  assumes "publishes c i raw x" and "kSensorHandleSubHalIndexMask c = first_byte_mask" and "i < 128"
  shows "extractSubHalIndex (sensorHandle x) = of_nat i"
    and "clearSubHalIndex first_byte_mask (sensorHandle x) = sensorHandle raw"
  using assms by (auto simp: publishes_def handle_simps word_less_nat_alt)

lemma initialize_direct:
  "mDirectChannelSubHal (initializeSensorList c ls s) =
     (case mDirectChannelSubHal s of
        Some i \<Rightarrow> Some i
      | None \<Rightarrow> map_option fst (find (\<lambda>(i, raw).
          subHalIndexIsClear (kSensorHandleSubHalIndexMask c) (sensorHandle raw) \<and>
          flags raw AND direct_mask c \<noteq> 0) (sensor_stream 0 ls)))"
proof -
  have "mDirectChannelSubHal (fold (\<lambda>(i, x). load_sensor c i x) xs s) =
     (case mDirectChannelSubHal s of
        Some i \<Rightarrow> Some i
      | None \<Rightarrow> map_option fst (find (\<lambda>(i, raw).
          subHalIndexIsClear (kSensorHandleSubHalIndexMask c) (sensorHandle raw) \<and>
          flags raw AND direct_mask c \<noteq> 0) xs))" for xs
  proof (induction xs arbitrary: s)
    case Nil
    then show ?case by (simp split: option.splits)
  next
    case (Cons p xs)
    then show ?case by (cases p) (auto simp: load_sensor_direct split: option.splits)
  qed
  then show ?thesis by (simp add: initializeSensorList_stream)
qed

section \<open>Properties of the static list\<close>

text \<open>
  C18: Soundness of the published list. Every sensor reported by \<open>getSensorsList_2_1\<close> after
  \<open>initializeSensorList\<close> is published for a sensor that some sub-HAL reported with a clear
  first byte: the top byte of its handle is the index of that sub-HAL and is valid, the
  lower bytes are the sub-HAL's own handle, and a Xiaomi pick-up sensor appears only in its
  wake-up version, as a standard pick-up gesture sensor.
\<close>

theorem sensor_list_sound:
  assumes mask: "kSensorHandleSubHalIndexMask c = first_byte_mask" and c: "flag_bits_ok c"
    and n: "length ls \<le> 128" and init: "mSensors s = []"
    and x: "x \<in> set (getSensorsList_2_1 (initializeSensorList c ls s))"
  shows "\<exists>i < length ls. \<exists>raw \<in> set (ls ! i). publishes c i raw x
    \<and> extractSubHalIndex (sensorHandle x) = of_nat i
    \<and> clearSubHalIndex (kSensorHandleSubHalIndexMask c) (sensorHandle x) = sensorHandle raw
    \<and> isSubHalIndexValid (of_nat (length ls)) (sensorHandle x)"
proof -
  from x obtain k where "(k, x) \<in> set (mSensors (initializeSensorList c ls s))"
    by (auto simp: in_getSensorsList)
  then obtain i raw where i: "i < length ls" "raw \<in> set (ls ! i)" and p: "publishes c i raw x"
    by (rule initialize_entry [OF c init])
  note h = published_handle [OF p mask]
  from i n have "isSubHalIndexValid (of_nat (length ls)) (sensorHandle x)"
    by (simp add: isSubHalIndexValid_def h(1) of_nat_less_size)
  with i n p mask h show ?thesis by auto
qed

text \<open>
  C19: Completeness of the published list. Every sensor a sub-HAL reports with a clear first
  byte is published, unless it is the non-wake-up version of the Xiaomi pick-up sensor,
  provided the sub-HAL does not use a handle twice.
\<close>

theorem sensor_list_complete:
  assumes mask: "kSensorHandleSubHalIndexMask c = first_byte_mask" and c: "flag_bits_ok c"
    and n: "length ls \<le> 128" and init: "mSensors s = []"
    and i: "i < length ls" and raw: "raw \<in> set (ls ! i)" and pub: "publishable c raw"
    and inj: "inj_on sensorHandle (set (ls ! i))"
  shows "\<exists>x \<in> set (getSensorsList_2_1 (initializeSensorList c ls s)). publishes c i raw x"
proof -
  let ?s = "initializeSensorList c ls s"
  from initialize_has_key [OF c pub i raw, of s]
  obtain x where x: "(sint (setSubHalIndex (sensorHandle raw) (of_nat i)), x) \<in> set (mSensors ?s)"
    by auto
  then obtain j raw' where j: "j < length ls" "raw' \<in> set (ls ! j)" "publishes c j raw' x"
    and h: "sint (setSubHalIndex (sensorHandle raw) (of_nat i)) = sint (sensorHandle x)"
    by (rule initialize_entry [OF c init])
  have "setSubHalIndex (sensorHandle raw) (of_nat i) = setSubHalIndex (sensorHandle raw') (of_nat j)"
    using h j(3) by (simp add: publishes_def sint_eq_iff)
  then have "sensorHandle raw = sensorHandle raw' \<and> (of_nat i :: size_t) = of_nat j"
    using i j n pub mask by (subst (asm) handles.tag_eq_iff)
      (auto simp: publishable_def publishes_def word_less_nat_alt)
  moreover from this have "i = j"
    using i j n by (simp add: of_nat_size_inject)
  ultimately have "raw' = raw" "j = i" using j raw inj by (auto simp: inj_on_def)
  with j x show ?thesis by (auto intro!: bexI [of _ x] simp: in_getSensorsList)
qed

text \<open>
  One sub-HAL owns the direct channels. The chosen sub-HAL is the one of the first sensor,
  in the order of the sub-HALs, that supports them, and every published sensor that still
  has a direct channel or direct report flag belongs to it.
\<close>

theorem direct_channel_exclusive:
  assumes c: "flag_bits_ok c" and mask: "kSensorHandleSubHalIndexMask c = first_byte_mask"
    and n: "length ls \<le> 128" and init: "mSensors s = []" "mDirectChannelSubHal s = None"
  shows "mDirectChannelSubHal (initializeSensorList c ls s) = map_option fst (find (\<lambda>(i, raw).
          subHalIndexIsClear first_byte_mask (sensorHandle raw) \<and> flags raw AND direct_mask c \<noteq> 0)
          (sensor_stream 0 ls))
    \<and> (\<forall>x \<in> set (getSensorsList_2_1 (initializeSensorList c ls s)).
          flags x AND direct_mask c \<noteq> 0 \<longrightarrow>
          map_option of_nat (mDirectChannelSubHal (initializeSensorList c ls s))
            = Some (extractSubHalIndex (sensorHandle x)))"
proof (intro conjI ballI impI)
  show "mDirectChannelSubHal (initializeSensorList c ls s) = map_option fst (find (\<lambda>(i, raw).
      subHalIndexIsClear first_byte_mask (sensorHandle raw) \<and> flags raw AND direct_mask c \<noteq> 0)
      (sensor_stream 0 ls))"
    by (simp add: initialize_direct init mask)
next
  fix x
  assume "x \<in> set (getSensorsList_2_1 (initializeSensorList c ls s))"
    and f: "flags x AND direct_mask c \<noteq> 0"
  then obtain k where "(k, x) \<in> set (mSensors (initializeSensorList c ls s))"
    by (auto simp: in_getSensorsList)
  then obtain i raw where "i < length ls" "publishes c i raw x"
    "mDirectChannelSubHal (initializeSensorList c ls s) = Some i"
    using initialize_entry [OF c init(1)] f by metis
  then show "map_option of_nat (mDirectChannelSubHal (initializeSensorList c ls s))
      = Some (extractSubHalIndex (sensorHandle x))"
    using published_handle(1) mask n by auto
qed

text \<open>
  The two list queries report the same sensors, in strictly increasing order of their
  signed handles, so no handle is reported twice.
\<close>

theorem sensor_lists_ordered:
  assumes "flag_bits_ok c" and "mSensors s = []"
  shows "sorted_wrt (\<lambda>x y. sint (sensorHandle x) < sint (sensorHandle y))
      (getSensorsList_2_1 (initializeSensorList c ls s))
    \<and> getSensorsList old (initializeSensorList c ls s)
      = map old (getSensorsList_2_1 (initializeSensorList c ls s))"
proof -
  let ?m = "mSensors (initializeSensorList c ls s)"
  have inv: "sensors_inv c (set (sensor_stream 0 ls)) (initializeSensorList c ls s)"
    using assms by (rule sensors_inv_initialize)
  have "map fst ?m = map (\<lambda>p. sint (sensorHandle (snd p))) ?m"
    using inv by (auto simp: sensors_inv_def)
  then have "sorted_wrt (<) (map (\<lambda>p. sint (sensorHandle (snd p))) ?m)"
    using inv [unfolded sensors_inv_def smap_ok_def] by (simp only:)
  then show ?thesis by (simp add: getSensorsList_2_1_def getSensorsList_def sorted_wrt_map)
qed

section \<open>Dynamic sensors\<close>

abbreviation tagged :: "i32 \<Rightarrow> SensorInfo \<Rightarrow> SensorInfo" where
  "tagged idx x \<equiv> x\<lparr>sensorHandle := setSubHalIndex (sensorHandle x) (scast idx)\<rparr>"

definition accepted :: "sensor_consts \<Rightarrow> SensorInfo list \<Rightarrow> SensorInfo list" where
  "accepted c = filter (\<lambda>x. subHalIndexIsClear (kSensorHandleSubHalIndexMask c) (sensorHandle x))"

lemma connected_eq:
  "onDynamicSensorsConnected c xs idx s =
     (let ys = map (tagged idx) (accepted c xs)
      in (s\<lparr>mDynamicSensors := fold (\<lambda>x. smap_assign (sint (sensorHandle x)) x) ys (mDynamicSensors s)\<rparr>, ys))"
  by (induction c xs idx s rule: onDynamicSensorsConnected.induct)
    (simp_all add: accepted_def Let_def split_beta)

definition removed_handles :: "sensor_consts \<Rightarrow> i32 \<Rightarrow> i32 list \<Rightarrow> i32 list" where
  "removed_handles c idx hs = map (\<lambda>h. setSubHalIndex h (scast idx))
     (filter (subHalIndexIsClear (kSensorHandleSubHalIndexMask c)) hs)"

lemma disconnected_state:
  "fst (onDynamicSensorsDisconnected c hs idx s) =
     s\<lparr>mDynamicSensors := fold smap_erase (map sint (removed_handles c idx hs)) (mDynamicSensors s)\<rparr>"
  by (induction c hs idx s rule: onDynamicSensorsDisconnected.induct)
    (simp_all add: removed_handles_def Let_def split_beta smap_erase_absent)

lemma disconnected_reported:
  assumes "smap_ok (mDynamicSensors s)"
  shows "set (snd (onDynamicSensorsDisconnected c hs idx s)) =
      {h \<in> set (removed_handles c idx hs). map_of (mDynamicSensors s) (sint h) \<noteq> None}
    \<and> distinct (snd (onDynamicSensorsDisconnected c hs idx s))"
  using assms
proof (induction c hs idx s rule: onDynamicSensorsDisconnected.induct)
  case (1 c idx s)
  then show ?case by (simp add: removed_handles_def)
next
  case (2 c h hs idx s)
  let ?h = "setSubHalIndex h (scast idx)"
  let ?s = "s\<lparr>mDynamicSensors := smap_erase (sint ?h) (mDynamicSensors s)\<rparr>"
  show ?case
  proof (cases "subHalIndexIsClear (kSensorHandleSubHalIndexMask c) h \<and> map_of (mDynamicSensors s) (sint ?h) \<noteq> None")
    case True
    then have "set (snd (onDynamicSensorsDisconnected c hs idx ?s)) =
        {g \<in> set (removed_handles c idx hs). map_of (mDynamicSensors ?s) (sint g) \<noteq> None}
      \<and> distinct (snd (onDynamicSensorsDisconnected c hs idx ?s))"
      using 2 by (simp add: smap_ok_erase)
    with True 2(4) show ?thesis
      by (auto simp: removed_handles_def Let_def split_beta map_of_smap_erase sint_eq_iff)
  next
    case False
    with 2 show ?thesis by (auto simp: removed_handles_def Let_def split_beta)
  qed
qed

text \<open>
  Connecting dynamic sensors. The framework is told exactly the sensors reported with a
  clear first byte, with the sub-HAL index put into their handles; each of them is then
  registered under its new handle, other registrations and the static list are unchanged,
  and the map stays ordered.
\<close>

theorem dynamic_sensors_connected:
  assumes "smap_ok (mDynamicSensors s)" and "onDynamicSensorsConnected c xs idx s = (s', ys)"
  shows "ys = map (tagged idx) (accepted c xs) \<and> smap_ok (mDynamicSensors s')
    \<and> (\<forall>h. map_of (mDynamicSensors s') (sint h) =
         (case filter (\<lambda>y. sensorHandle y = h) (rev ys) of
            [] \<Rightarrow> map_of (mDynamicSensors s) (sint h) | y # _ \<Rightarrow> Some y))
    \<and> mSensors s' = mSensors s"
proof -
  from assms(2) have ys: "ys = map (tagged idx) (accepted c xs)"
    and s': "s' = s\<lparr>mDynamicSensors :=
      fold (\<lambda>x. smap_assign (sint (sensorHandle x)) x) ys (mDynamicSensors s)\<rparr>"
    by (auto simp: connected_eq Let_def)
  have "map_of (mDynamicSensors s') (sint h) = (case filter (\<lambda>y. sensorHandle y = h) (rev ys) of
      [] \<Rightarrow> map_of (mDynamicSensors s) (sint h) | y # _ \<Rightarrow> Some y)" for h
    using sm.find_fold_assign [OF assms(1), of "\<lambda>x. sint (sensorHandle x)" "\<lambda>x. x" ys "sint h"]
    by (simp add: s' sint_eq_iff)
  with ys show ?thesis
    using sm.ok_fold_assign [OF assms(1), of "\<lambda>x. sint (sensorHandle x)" "\<lambda>x. x"]
    by (simp add: s')
qed

text \<open>
  Disconnecting dynamic sensors. After the call none of the named handles is registered
  and all others are as before; the framework is told, without repetition, exactly the named
  handles that were registered, so a handle of another sub-HAL is never reported.
\<close>

theorem dynamic_sensors_disconnected:
  assumes "smap_ok (mDynamicSensors s)" and "onDynamicSensorsDisconnected c hs idx s = (s', rs)"
  shows "smap_ok (mDynamicSensors s') \<and> distinct rs
    \<and> set rs = {h \<in> set (removed_handles c idx hs). map_of (mDynamicSensors s) (sint h) \<noteq> None}
    \<and> (\<forall>h. map_of (mDynamicSensors s') (sint h) =
         (if h \<in> set (removed_handles c idx hs) then None else map_of (mDynamicSensors s) (sint h)))
    \<and> mSensors s' = mSensors s"
proof -
  have s': "s' = s\<lparr>mDynamicSensors := fold smap_erase (map sint (removed_handles c idx hs)) (mDynamicSensors s)\<rparr>"
    using assms(2) disconnected_state [of c hs idx s] by simp
  have rs: "set rs = {h \<in> set (removed_handles c idx hs). map_of (mDynamicSensors s) (sint h) \<noteq> None} \<and> distinct rs"
    using assms(2) disconnected_reported [OF assms(1), of c hs idx] by simp
  have "map_of (mDynamicSensors s') (sint h) =
      (if h \<in> set (removed_handles c idx hs) then None else map_of (mDynamicSensors s) (sint h))" for h
    by (auto simp: s' sm.find_fold_erase [OF assms(1)] sint_eq_iff)
  with rs show ?thesis by (simp add: s' sm.ok_fold_erase [OF assms(1)])
qed

section \<open>The properties at concrete inputs\<close>

text \<open>The values of the interface headers, and a pick-up sensor as the vendor sub-HAL reports it.\<close>

definition aosp_consts :: sensor_consts where
  "aosp_consts = \<lparr>WAKE_UP = 1, MASK_DIRECT_REPORT = 0x380, MASK_DIRECT_CHANNEL = 0xC00,
     PICK_UP_GESTURE = 25, SENSOR_STRING_TYPE_PICK_UP_GESTURE = ''android.sensor.pick_up_gesture'',
     ADDITIONAL_INFO = 33, kSensorHandleSubHalIndexMask = 0xFF000000,
     kMaxSizePendingWriteEventsQueue = 100000, kWakelockTimeoutNs = 1000000000\<rparr>"

definition example_pickup :: SensorInfo where
  "example_pickup = \<lparr>sensorHandle = 7, sensorName = ''pickup'', sensorType = 33171036,
     typeAsString = xiaomi_pick_up, maxRange = 5, flags = 0x401\<rparr>"

definition example_start :: sensors_state where
  "example_start = \<lparr>mSensors = [], mDynamicSensors = [], mDirectChannelSubHal = None\<rparr>"

lemmas example_defs = aosp_consts_def example_pickup_def example_start_def

lemma aosp_flag_bits: "flag_bits_ok aosp_consts"
  by (simp add: flag_bits_ok_def direct_mask_def aosp_consts_def)

lemma aosp_mask: "kSensorHandleSubHalIndexMask aosp_consts = first_byte_mask"
  by (simp add: aosp_consts_def)

lemma example_start_fields [simp]:
  "mSensors example_start = []" "mDynamicSensors example_start = []" "mDirectChannelSubHal example_start = None"
  by (simp_all add: example_start_def)

lemma example_list:
  "initializeSensorList aosp_consts [[], [example_pickup]] example_start =
     example_start\<lparr>mSensors := [(16777223, example_pickup\<lparr>sensorHandle := 0x1000007, sensorType := 25,
         typeAsString := ''android.sensor.pick_up_gesture'', maxRange := 1\<rparr>)],
       mDirectChannelSubHal := Some 1\<rparr>"
  by (simp add: initializeSensorList_def load_sensor_defs example_defs direct_mask_def xiaomi_pick_up_def
      subHalIndexIsClear_def setSubHalIndex_def kBitsAfterSubHalIndex_def)

definition example_published :: SensorInfo where
  "example_published = example_pickup\<lparr>sensorHandle := 0x1000007, sensorType := 25,
     typeAsString := ''android.sensor.pick_up_gesture'', maxRange := 1\<rparr>"

theorem sensor_list_sound_witness:
  "\<exists>i < 2. \<exists>raw \<in> set ([[], [example_pickup]] ! i). publishes aosp_consts i raw example_published
     \<and> extractSubHalIndex (sensorHandle example_published) = of_nat i"
proof -
  have x: "example_published
      \<in> set (getSensorsList_2_1 (initializeSensorList aosp_consts [[], [example_pickup]] example_start))"
    by (simp add: example_list getSensorsList_2_1_def example_published_def)
  have "length [[], [example_pickup]] \<le> 128" by simp
  from sensor_list_sound [OF aosp_mask aosp_flag_bits this _ x] show ?thesis
    by (auto simp: numeral_2_eq_2)
qed

lemma example_publishable: "publishable aosp_consts example_pickup"
  by (simp add: publishable_def example_defs subHalIndexIsClear_def)

theorem sensor_list_complete_witness:
  "\<exists>x \<in> set (getSensorsList_2_1 (initializeSensorList aosp_consts [[], [example_pickup]] example_start)).
     publishes aosp_consts 1 example_pickup x"
  by (rule sensor_list_complete [OF aosp_mask aosp_flag_bits _ _ _ _ example_publishable]) simp_all

theorem direct_channel_exclusive_witness:
  "mDirectChannelSubHal (initializeSensorList aosp_consts [[], [example_pickup]] example_start) = Some 1
   \<and> extractSubHalIndex (sensorHandle example_published) = 1"
proof -
  let ?s = "initializeSensorList aosp_consts [[], [example_pickup]] example_start"
  have "length [[], [example_pickup]] \<le> 128" by simp
  note ex = direct_channel_exclusive [OF aosp_flag_bits aosp_mask this example_start_fields(1,3)]
  have "example_published \<in> set (getSensorsList_2_1 ?s)"
    by (simp add: example_list getSensorsList_2_1_def example_published_def)
  moreover have "flags example_published AND direct_mask aosp_consts \<noteq> 0"
    by (simp add: example_published_def example_defs direct_mask_def)
  ultimately have "map_option of_nat (mDirectChannelSubHal ?s) = Some (extractSubHalIndex (sensorHandle example_published))"
    using ex by blast
  then show ?thesis by (simp add: example_list)
qed

theorem sensor_lists_ordered_witness:
  "sorted_wrt (\<lambda>x y. sint (sensorHandle x) < sint (sensorHandle y))
     (getSensorsList_2_1 (initializeSensorList aosp_consts [[], [example_pickup]] example_start))"
  by (rule sensor_lists_ordered [OF aosp_flag_bits, THEN conjunct1]) simp

theorem dynamic_sensors_connected_witness:
  "snd (onDynamicSensorsConnected aosp_consts [example_pickup] 1 example_start)
     = [example_pickup\<lparr>sensorHandle := 0x1000007\<rparr>]
   \<and> smap_ok (mDynamicSensors (fst (onDynamicSensorsConnected aosp_consts [example_pickup] 1 example_start)))"
proof -
  obtain s' ys where r: "onDynamicSensorsConnected aosp_consts [example_pickup] 1 example_start = (s', ys)"
    by fastforce
  have "smap_ok (mDynamicSensors example_start)" by simp
  from dynamic_sensors_connected [OF this r] r show ?thesis
    by (simp add: accepted_def example_defs subHalIndexIsClear_def setSubHalIndex_def kBitsAfterSubHalIndex_def)
qed

theorem dynamic_sensors_disconnected_witness:
  "set (snd (onDynamicSensorsDisconnected aosp_consts [7, 8] 1
      (example_start\<lparr>mDynamicSensors := [(0x1000007, example_pickup)]\<rparr>))) = {0x1000007}"
proof -
  let ?s = "example_start\<lparr>mDynamicSensors := [(0x1000007, example_pickup)]\<rparr>"
  obtain s' rs where r: "onDynamicSensorsDisconnected aosp_consts [7, 8] 1 ?s = (s', rs)"
    by fastforce
  have ok: "smap_ok (mDynamicSensors ?s)" by simp
  have "removed_handles aosp_consts 1 [7, 8] = [0x1000007, 0x1000008]"
    by (simp add: removed_handles_def aosp_consts_def subHalIndexIsClear_def setSubHalIndex_def
        kBitsAfterSubHalIndex_def)
  with dynamic_sensors_disconnected [OF ok r] r show ?thesis by auto
qed

end
