(* ===== verification/Wakelock.thy ===== *)
theory Wakelock
  imports Sensor_List
begin

text \<open>
  The shared wake lock of \<open>src/sensors/HalProxy.cpp\<close>: a reference count of type \<open>size_t\<close>,
  the two time stamps of the timeout, and the calls to the power library
  (\<open>acquire_wake_lock\<close>, \<open>release_wake_lock\<close>) and to the condition variable, recorded in the
  order in which they are made. \<open>getTimeNow()\<close> is an argument of every operation that
  reads the clock; time stamps are nanoseconds of type \<open>int64_t\<close>, read as integers (the
  code never lets them overflow short of undefined behaviour). \<open>ref_counter\<close> is the
  interface that the event queue relies on.
\<close>

section \<open>State\<close>

datatype wake_call = AcquireWakeLock | ReleaseWakeLock | NotifyWakelockThread

record wakelock_state = sensors_state +
  mThreadsRun :: bool
  mWakelockRefCount :: size_t
  mWakelockTimeoutStartTime :: int
  mWakelockTimeoutResetTime :: int
  wake_calls :: "wake_call list"

section \<open>Operations\<close>

text \<open>\<open>None\<close> is the result \<open>false\<close>; \<open>Some t\<close> is \<open>true\<close> with \<open>t\<close> stored through \<open>timeoutStart\<close>.\<close>

definition incrementRefCountAndMaybeAcquireWakelock ::
  "int \<Rightarrow> size_t \<Rightarrow> 'a wakelock_state_scheme \<Rightarrow> int option \<times> 'a wakelock_state_scheme" where
  "incrementRefCountAndMaybeAcquireWakelock now delta s =
     (if \<not> mThreadsRun s then (None, s)
      else
        let s = (if mWakelockRefCount s = 0
                 then s\<lparr>wake_calls := wake_calls s @ [AcquireWakeLock, NotifyWakelockThread]\<rparr> else s);
            s = s\<lparr>mWakelockTimeoutStartTime := now\<rparr>;
            s = s\<lparr>mWakelockRefCount := mWakelockRefCount s + delta\<rparr>
        in (Some (mWakelockTimeoutStartTime s), s))"

definition decrementRefCountAndMaybeReleaseWakelock ::
  "size_t \<Rightarrow> int \<Rightarrow> 'a wakelock_state_scheme \<Rightarrow> 'a wakelock_state_scheme" where
  "decrementRefCountAndMaybeReleaseWakelock delta timeoutStart s =
     (if \<not> mThreadsRun s then s
      else
        let timeoutStart = (if timeoutStart = -1 then mWakelockTimeoutResetTime s else timeoutStart)
        in if mWakelockRefCount s = 0 \<or> timeoutStart < mWakelockTimeoutResetTime s then s
           else
             let s = s\<lparr>mWakelockRefCount :=
                   mWakelockRefCount s - min (mWakelockRefCount s) delta\<rparr>
             in if mWakelockRefCount s = 0 then s\<lparr>wake_calls := wake_calls s @ [ReleaseWakeLock]\<rparr>
                else s)"

definition resetSharedWakelock :: "int \<Rightarrow> 'a wakelock_state_scheme \<Rightarrow> 'a wakelock_state_scheme" where
  "resetSharedWakelock now s =
     (let s = decrementRefCountAndMaybeReleaseWakelock (mWakelockRefCount s) (-1) s
      in s\<lparr>mWakelockTimeoutResetTime := now\<rparr>)"

text \<open>\<open>None\<close> is \<open>true\<close> (timed out); \<open>Some t\<close> is \<open>false\<close> with \<open>t\<close> stored through \<open>timeLeft\<close>.\<close>

definition sharedWakelockDidTimeout ::
  "sensor_consts \<Rightarrow> int \<Rightarrow> 'a wakelock_state_scheme \<Rightarrow> int option" where
  "sharedWakelockDidTimeout c now s =
     (let duration = now - mWakelockTimeoutStartTime s
      in if duration > kWakelockTimeoutNs c then None
         else Some (kWakelockTimeoutNs c - duration))"

text \<open>
  The wake lock thread. It gives up its mutex while it waits on the condition variable and
  while it waits in \<open>readBlocking\<close>, so the loop is cut there: \<open>WlHead\<close> is the loop head
  with the wait, \<open>WlReading t\<close> the call that waits for at most \<open>t\<close> nanoseconds, \<open>WlExited\<close>
  the end of the function. The head step is taken only when the wait predicate holds.
\<close>

datatype wakelock_pc = WlHead | WlReading int | WlExited

definition handleWakelocks_awake :: "'a wakelock_state_scheme \<Rightarrow> bool" where
  "handleWakelocks_awake s \<longleftrightarrow> mWakelockRefCount s > 0 \<or> \<not> mThreadsRun s"

definition handleWakelocks_head ::
  "sensor_consts \<Rightarrow> int \<Rightarrow> int \<Rightarrow> 'a wakelock_state_scheme \<Rightarrow> wakelock_pc \<times> 'a wakelock_state_scheme" where
  "handleWakelocks_head c now now' s =
     (if mThreadsRun s
      then (case sharedWakelockDidTimeout c now s of
              None \<Rightarrow> (WlHead, resetSharedWakelock now' s)
            | Some timeLeft \<Rightarrow> (WlReading timeLeft, s))
      else (WlExited, resetSharedWakelock now' s))"

text \<open>\<open>Some n\<close>: the read succeeded with \<open>n\<close> wake locks processed by the framework.\<close>

definition handleWakelocks_read ::
  "u32 option \<Rightarrow> 'a wakelock_state_scheme \<Rightarrow> wakelock_pc \<times> 'a wakelock_state_scheme" where
  "handleWakelocks_read result s =
     (case result of
        None \<Rightarrow> (WlHead, s)
      | Some numWakeLocksProcessed \<Rightarrow>
          (WlHead, decrementRefCountAndMaybeReleaseWakelock (ucast numWakeLocksProcessed) (-1) s))"

section \<open>Specification\<close>

text \<open>The wake lock is held when the last call of the two was \<open>acquire_wake_lock\<close>.\<close>

fun held_after :: "wake_call list \<Rightarrow> bool \<Rightarrow> bool" where
  "held_after [] b = b"
| "held_after (AcquireWakeLock # cs) b = held_after cs True"
| "held_after (ReleaseWakeLock # cs) b = held_after cs False"
| "held_after (NotifyWakelockThread # cs) b = held_after cs b"

text \<open>Acquire only when free, release only when held.\<close>

fun paired :: "wake_call list \<Rightarrow> bool \<Rightarrow> bool" where
  "paired [] b = True"
| "paired (AcquireWakeLock # cs) b = (\<not> b \<and> paired cs True)"
| "paired (ReleaseWakeLock # cs) b = (b \<and> paired cs False)"
| "paired (NotifyWakelockThread # cs) b = paired cs b"

definition lock_held :: "'a wakelock_state_scheme \<Rightarrow> bool" where
  "lock_held s \<longleftrightarrow> held_after (wake_calls s) False"

definition wakelock_inv :: "'a wakelock_state_scheme \<Rightarrow> bool" where
  "wakelock_inv s \<longleftrightarrow> paired (wake_calls s) False \<and> (lock_held s \<longleftrightarrow> mWakelockRefCount s \<noteq> 0)"

locale ref_counter =
  fixes active :: "'s \<Rightarrow> bool"
    and count :: "'s \<Rightarrow> nat"
    and held :: "'s \<Rightarrow> bool"
    and ok :: "'s \<Rightarrow> bool"
    and inc :: "nat \<Rightarrow> 's \<Rightarrow> 's"
    and dec :: "nat \<Rightarrow> 's \<Rightarrow> 's"
    and bound :: nat
  assumes held_iff: "ok s \<Longrightarrow> held s \<longleftrightarrow> count s \<noteq> 0"
    and ok_inc: "ok s \<Longrightarrow> 0 < n \<Longrightarrow> count s + n < bound \<Longrightarrow> ok (inc n s)"
    and ok_dec: "ok s \<Longrightarrow> ok (dec n s)"
    and count_inc: "active s \<Longrightarrow> count s + n < bound \<Longrightarrow> count (inc n s) = count s + n"
    and count_dec: "active s \<Longrightarrow> n < bound \<Longrightarrow> count (dec n s) = count s - n"
    and active_inc: "active (inc n s) = active s"
    and active_dec: "active (dec n s) = active s"
begin

lemma inc_acquires: "ok s \<Longrightarrow> active s \<Longrightarrow> 0 < n \<Longrightarrow> count s + n < bound \<Longrightarrow> held (inc n s)"
  by (simp add: held_iff ok_inc count_inc)

lemma dec_releases: "ok s \<Longrightarrow> active s \<Longrightarrow> count s \<le> n \<Longrightarrow> n < bound \<Longrightarrow> \<not> held (dec n s)"
  by (simp add: held_iff ok_dec count_dec)

lemma dec_inc: "active s \<Longrightarrow> count s + n < bound \<Longrightarrow> count (dec n (inc n s)) = count s"
  by (simp add: count_dec count_inc active_inc)

lemma ok_fold_dec: "ok s \<Longrightarrow> ok (fold dec ns s)"
  by (induction ns arbitrary: s) (auto intro: ok_dec)

text \<open>Acknowledging in pieces is the same as acknowledging the sum at once.\<close>

lemma count_fold_dec:
  "active s \<Longrightarrow> \<forall>n \<in> set ns. n < bound \<Longrightarrow> count (fold dec ns s) = count s - sum_list ns"
  by (induction ns arbitrary: s) (auto simp: count_dec active_dec)

lemma fold_dec_releases:
  assumes "ok s" "active s" "\<forall>n \<in> set ns. n < bound"
  shows "held (fold dec ns s) \<longleftrightarrow> sum_list ns < count s"
  using assms by (auto simp: held_iff ok_fold_dec count_fold_dec)

end

section \<open>Lemmas\<close>

lemma held_after_append [simp]: "held_after (xs @ ys) b = held_after ys (held_after xs b)"
  by (induction xs b rule: held_after.induct) auto

lemma paired_append [simp]: "paired (xs @ ys) b \<longleftrightarrow> paired xs b \<and> paired ys (held_after xs b)"
  by (induction xs b rule: paired.induct) auto

lemma size_add_nonzero: "d \<noteq> 0 \<Longrightarrow> unat n + unat d < 2 ^ 64 \<Longrightarrow> n + d \<noteq> (0 :: size_t)"
  using unat_plus_size [of n d] by (metis add_is_0 unat_eq_zero)

lemma size_sub_min: "unat (n - min n d) = unat n - unat (d :: size_t)"
  by (simp add: unat_minus_size unat_min min_def word_le_nat_alt)

lemmas wakelock_defs =
  incrementRefCountAndMaybeAcquireWakelock_def decrementRefCountAndMaybeReleaseWakelock_def
  resetSharedWakelock_def Let_def

lemma inc_inv:
  assumes "wakelock_inv s" and "delta \<noteq> 0"
    and "unat (mWakelockRefCount s) + unat delta < 2 ^ 64"
  shows "wakelock_inv (snd (incrementRefCountAndMaybeAcquireWakelock now delta s))"
  using assms size_add_nonzero [of delta "mWakelockRefCount s"]
  by (auto simp: wakelock_inv_def lock_held_def wakelock_defs)

lemma dec_inv:
  "wakelock_inv s \<Longrightarrow> wakelock_inv (decrementRefCountAndMaybeReleaseWakelock delta t s)"
  by (auto simp: wakelock_inv_def lock_held_def wakelock_defs)

lemma reset_inv: "wakelock_inv s \<Longrightarrow> wakelock_inv (resetSharedWakelock now s)"
  using dec_inv [of s "mWakelockRefCount s" "-1"]
  by (simp add: resetSharedWakelock_def Let_def wakelock_inv_def lock_held_def)

lemma head_inv: "wakelock_inv s \<Longrightarrow> wakelock_inv (snd (handleWakelocks_head c now now' s))"
  by (auto simp: handleWakelocks_head_def reset_inv split: option.splits)

lemma read_inv: "wakelock_inv s \<Longrightarrow> wakelock_inv (snd (handleWakelocks_read r s))"
  by (auto simp: handleWakelocks_read_def dec_inv split: option.splits)

lemma inc_count [wakelock_simps]:
  "mThreadsRun s \<Longrightarrow> mWakelockRefCount (snd (incrementRefCountAndMaybeAcquireWakelock now d s))
     = mWakelockRefCount s + d"
  by (simp add: wakelock_defs)

lemma dec_count_word [wakelock_simps]:
  "mThreadsRun s \<Longrightarrow> mWakelockRefCount (decrementRefCountAndMaybeReleaseWakelock d (-1) s)
     = mWakelockRefCount s - min (mWakelockRefCount s) d"
  by (auto simp: wakelock_defs)

lemma dec_count:
  "mThreadsRun s \<Longrightarrow> unat (mWakelockRefCount (decrementRefCountAndMaybeReleaseWakelock d (-1) s))
     = unat (mWakelockRefCount s) - unat d"
  by (simp add: dec_count_word size_sub_min)

lemma wakelock_frame [wakelock_simps]:
  "mThreadsRun (snd (incrementRefCountAndMaybeAcquireWakelock now d s)) = mThreadsRun s"
  "mThreadsRun (decrementRefCountAndMaybeReleaseWakelock d t s) = mThreadsRun s"
  "mThreadsRun (resetSharedWakelock now s) = mThreadsRun s"
  "wakelock_state.more (snd (incrementRefCountAndMaybeAcquireWakelock now d s)) = wakelock_state.more s"
  "wakelock_state.more (decrementRefCountAndMaybeReleaseWakelock d t s) = wakelock_state.more s"
  "wakelock_state.more (resetSharedWakelock now s) = wakelock_state.more s"
  "mSensors (snd (incrementRefCountAndMaybeAcquireWakelock now d s)) = mSensors s"
  "mSensors (decrementRefCountAndMaybeReleaseWakelock d t s) = mSensors s"
  "mSensors (resetSharedWakelock now s) = mSensors s"
  by (simp_all add: wakelock_defs)

lemma reset_count [wakelock_simps]:
  "mThreadsRun s \<Longrightarrow> mWakelockRefCount (resetSharedWakelock now s) = 0"
  by (simp add: wakelock_defs)

interpretation wl: ref_counter mThreadsRun "\<lambda>s. unat (mWakelockRefCount s)" lock_held wakelock_inv
  "\<lambda>n s. snd (incrementRefCountAndMaybeAcquireWakelock now (of_nat n) s)"
  "\<lambda>n s. decrementRefCountAndMaybeReleaseWakelock (of_nat n) (-1) s"
  "2 ^ 64" for now
proof (unfold_locales, goal_cases)
  case (1 s)
  then show ?case by (simp add: wakelock_inv_def unat_eq_zero)
next
  case (2 s n)
  then have n: "unat (of_nat n :: size_t) = n" by simp
  with 2 have "(of_nat n :: size_t) \<noteq> 0" by (metis less_irrefl unat_0)
  with 2 n show ?case by (intro inc_inv) simp_all
next
  case (3 s n)
  then show ?case by (rule dec_inv)
next
  case (4 s n)
  then show ?case by (simp add: inc_count unat_plus_size)
next
  case (5 s n)
  then show ?case by (simp add: dec_count)
qed (simp_all add: wakelock_frame)


section \<open>Sequences of operations\<close>

text \<open>The operations that the threads, the sub-HALs and the framework interleave.\<close>

datatype wake_op = Increment int size_t | Decrement size_t int | Reset int

fun apply_wake_op :: "wake_op \<Rightarrow> 'a wakelock_state_scheme \<Rightarrow> 'a wakelock_state_scheme" where
  "apply_wake_op (Increment now d) s = snd (incrementRefCountAndMaybeAcquireWakelock now d s)"
| "apply_wake_op (Decrement d t) s = decrementRefCountAndMaybeReleaseWakelock d t s"
| "apply_wake_op (Reset now) s = resetSharedWakelock now s"

fun op_increment :: "wake_op \<Rightarrow> nat" where
  "op_increment (Increment now d) = unat d"
| "op_increment _ = 0"

fun op_nonzero :: "wake_op \<Rightarrow> bool" where
  "op_nonzero (Increment now d) \<longleftrightarrow> d \<noteq> 0"
| "op_nonzero _ \<longleftrightarrow> True"

lemma dec_count_le:
  "unat (mWakelockRefCount (decrementRefCountAndMaybeReleaseWakelock d t s)) \<le> unat (mWakelockRefCount s)"
  by (simp add: wakelock_defs size_sub_min)

lemma apply_wake_op_count:
  assumes "unat (mWakelockRefCount s) + op_increment x < 2 ^ 64"
  shows "unat (mWakelockRefCount (apply_wake_op x s)) \<le> unat (mWakelockRefCount s) + op_increment x"
  using assms dec_count_le [of "mWakelockRefCount s" "-1" s]
  by (cases x) (auto simp: dec_count_le resetSharedWakelock_def Let_def unat_plus_size
      incrementRefCountAndMaybeAcquireWakelock_def)

lemma apply_wake_op_inv:
  assumes "wakelock_inv s" and "op_nonzero x"
    and "unat (mWakelockRefCount s) + op_increment x < 2 ^ 64"
  shows "wakelock_inv (apply_wake_op x s)"
  using assms by (cases x) (auto intro: inc_inv dec_inv reset_inv)

lemma sum_op_increment_zero: "\<forall>x \<in> set xs. op_increment x = 0 \<Longrightarrow> sum_list (map op_increment xs) = 0"
  by (induction xs) auto

lemma no_increment_count_zero:
  assumes "mWakelockRefCount s = 0" and "\<forall>x \<in> set xs. \<forall>now d. x \<noteq> Increment now d"
  shows "mWakelockRefCount (fold apply_wake_op xs s) = 0 \<and> wake_calls (fold apply_wake_op xs s) = wake_calls s"
  using assms
proof (induction xs arbitrary: s)
  case Nil
  then show ?case by simp
next
  case (Cons x xs)
  then have "mWakelockRefCount (apply_wake_op x s) = 0" "wake_calls (apply_wake_op x s) = wake_calls s"
    by (cases x; auto simp: wakelock_defs)+
  with Cons show ?case by simp
qed

section \<open>Properties\<close>

text \<open>
  C9: The wake lock is held exactly while the reference count is positive. Any interleaving of
  increments, acknowledgements and resets keeps this and makes the calls to the power
  library alternate (never a second acquire, never a release of a free lock), as long as no
  increment is by zero and the increments do not overflow \<open>size_t\<close>.
\<close>

theorem wakelock_run_inv:
  assumes "wakelock_inv s" and "\<forall>x \<in> set ops. op_nonzero x"
    and "unat (mWakelockRefCount s) + sum_list (map op_increment ops) < 2 ^ 64"
  shows "wakelock_inv (fold apply_wake_op ops s)"
  using assms
proof (induction ops arbitrary: s)
  case Nil
  then show ?case by simp
next
  case (Cons x ops)
  have x: "unat (mWakelockRefCount s) + op_increment x < 2 ^ 64" using Cons.prems by simp
  have "wakelock_inv (apply_wake_op x s)"
    by (rule apply_wake_op_inv) (use Cons.prems x in auto)
  moreover have "unat (mWakelockRefCount (apply_wake_op x s)) + sum_list (map op_increment ops) < 2 ^ 64"
    using apply_wake_op_count [OF x] Cons.prems(3) by simp
  ultimately show ?case using Cons.IH Cons.prems(2) by simp
qed

definition example_wl :: wakelock_state where
  "example_wl = \<lparr>mSensors = [], mDynamicSensors = [], mDirectChannelSubHal = None,
     mThreadsRun = True, mWakelockRefCount = 0, mWakelockTimeoutStartTime = 0,
     mWakelockTimeoutResetTime = 0, wake_calls = []\<rparr>"

lemma example_wl_inv: "wakelock_inv example_wl"
  by (simp add: wakelock_inv_def lock_held_def example_wl_def)

theorem wakelock_run_inv_witness:
  "wakelock_inv (fold apply_wake_op [Increment 5 2, Decrement 1 (-1), Reset 9, Increment 10 1] example_wl)
   \<and> wake_calls (fold apply_wake_op [Increment 5 2, Decrement 1 (-1), Reset 9, Increment 10 1] example_wl)
     = [AcquireWakeLock, NotifyWakelockThread, ReleaseWakeLock, AcquireWakeLock, NotifyWakelockThread]"
proof
  show "wakelock_inv (fold apply_wake_op [Increment 5 2, Decrement 1 (-1), Reset 9, Increment 10 1] example_wl)"
    by (rule wakelock_run_inv [OF example_wl_inv]) (simp_all add: example_wl_def)
qed (simp add: wakelock_defs example_wl_def)

text \<open>
  The framework may acknowledge wake-up events in any pieces: after acknowledgements whose
  numbers add up to \<open>k\<close>, the lock is still held exactly if more than \<open>k\<close> were counted.
\<close>

theorem acknowledge_in_pieces:
  assumes "wakelock_inv s" and "mThreadsRun s" and "\<forall>n \<in> set ns. n < 2 ^ 64"
  shows "lock_held (fold (\<lambda>n. decrementRefCountAndMaybeReleaseWakelock (of_nat n) (-1)) ns s)
    \<longleftrightarrow> sum_list ns < unat (mWakelockRefCount s)"
  using wl.fold_dec_releases [OF assms] by simp

theorem acknowledge_in_pieces_witness:
  "\<not> lock_held (fold (\<lambda>n. decrementRefCountAndMaybeReleaseWakelock (of_nat n) (-1)) [1, 2]
      (snd (incrementRefCountAndMaybeAcquireWakelock 5 3 example_wl)))"
proof -
  let ?s = "snd (incrementRefCountAndMaybeAcquireWakelock 5 3 example_wl)"
  have "wakelock_inv ?s" by (rule inc_inv [OF example_wl_inv]) (simp_all add: example_wl_def)
  moreover have "mThreadsRun ?s" "mWakelockRefCount ?s = 3"
    by (simp_all add: wakelock_defs example_wl_def)
  moreover have "\<forall>n \<in> set [1, 2 :: nat]. n < 2 ^ 64" by simp
  ultimately show ?thesis using acknowledge_in_pieces [of ?s "[1, 2]"] by simp
qed

text \<open>
  \<open>resetSharedWakelock\<close> empties the count and releases the lock only while the threads run.
  The calls made after \<open>mThreadsRun\<close> is cleared (in \<open>initializeCommon\<close> and at the end of
  \<open>handleWakelocks\<close>) change neither the count nor the lock; they only move the reset time.
\<close>

theorem reset_only_while_running:
  "mWakelockRefCount (resetSharedWakelock now s) = (if mThreadsRun s then 0 else mWakelockRefCount s)
   \<and> wake_calls (resetSharedWakelock now s) =
       (if mThreadsRun s \<and> mWakelockRefCount s \<noteq> 0 then wake_calls s @ [ReleaseWakeLock] else wake_calls s)
   \<and> mWakelockTimeoutResetTime (resetSharedWakelock now s) = now"
  by (auto simp: wakelock_defs)

text \<open>
  A scoped wake lock that was taken before a reset cannot undo a later increment: its
  release, which carries its own start time, is ignored after the reset.
\<close>

theorem stale_release_ignored:
  assumes "t < now" and "t \<noteq> -1"
  shows "decrementRefCountAndMaybeReleaseWakelock d t
      (snd (incrementRefCountAndMaybeAcquireWakelock now' d' (resetSharedWakelock now s)))
    = snd (incrementRefCountAndMaybeAcquireWakelock now' d' (resetSharedWakelock now s))"
  using assms by (simp add: wakelock_defs)

theorem stale_release_ignored_witness:
  "mWakelockRefCount (decrementRefCountAndMaybeReleaseWakelock 1 3
      (snd (incrementRefCountAndMaybeAcquireWakelock 8 1 (resetSharedWakelock 7 example_wl)))) = 1"
  using stale_release_ignored [of 3 7 1 8 1 example_wl] by (simp add: wakelock_defs example_wl_def)

text \<open>
  An increment by zero on a free lock acquires it without counting anything: afterwards no
  sequence of acknowledgements and resets releases it, until another increment comes.
\<close>

theorem zero_increment_leaks:
  assumes "mThreadsRun s" and "mWakelockRefCount s = 0"
    and "\<forall>x \<in> set ops. \<forall>now d. x \<noteq> Increment now d"
  shows "lock_held (fold apply_wake_op ops (snd (incrementRefCountAndMaybeAcquireWakelock now 0 s)))"
proof -
  let ?s = "snd (incrementRefCountAndMaybeAcquireWakelock now 0 s)"
  have "mWakelockRefCount ?s = 0" using assms by (simp add: inc_count)
  from no_increment_count_zero [OF this assms(3)] show ?thesis
    using assms by (simp add: lock_held_def wakelock_defs)
qed

theorem zero_increment_leaks_witness:
  "lock_held (fold apply_wake_op [Decrement 1 5, Decrement 3 (-1), Reset 20]
      (snd (incrementRefCountAndMaybeAcquireWakelock 10 0 example_wl)))"
  by (rule zero_increment_leaks) (simp_all add: example_wl_def)

text \<open>
  The wake lock thread never waits for a negative time, and waits at most the whole timeout
  when the clock has not gone back; when the timeout has passed since the last increment it
  empties the count instead and the lock is free.
\<close>

theorem wakelock_thread_timeout:
  assumes "mThreadsRun s" and "wakelock_inv s" and "mWakelockTimeoutStartTime s \<le> now"
  shows "case handleWakelocks_head c now now' s of
      (WlReading timeLeft, s') \<Rightarrow> s' = s \<and> 0 \<le> timeLeft \<and> timeLeft \<le> kWakelockTimeoutNs c
        \<and> now + timeLeft = mWakelockTimeoutStartTime s + kWakelockTimeoutNs c
    | (WlHead, s') \<Rightarrow> kWakelockTimeoutNs c < now - mWakelockTimeoutStartTime s
        \<and> mWakelockRefCount s' = 0 \<and> \<not> lock_held s'
    | (WlExited, s') \<Rightarrow> False"
proof (cases "sharedWakelockDidTimeout c now s")
  case None
  have "wakelock_inv (resetSharedWakelock now' s)" using assms(2) by (rule reset_inv)
  with None assms(1) show ?thesis
    by (auto simp: handleWakelocks_head_def sharedWakelockDidTimeout_def Let_def wakelock_inv_def
        reset_count split: if_splits)
next
  case (Some t)
  with assms show ?thesis
    by (auto simp: handleWakelocks_head_def sharedWakelockDidTimeout_def Let_def split: if_splits)
qed

theorem wakelock_thread_timeout_witness:
  "handleWakelocks_head aosp_consts 10 11 (snd (incrementRefCountAndMaybeAcquireWakelock 4 1 example_wl))
     = (WlReading 999999994, snd (incrementRefCountAndMaybeAcquireWakelock 4 1 example_wl))"
proof -
  let ?s = "snd (incrementRefCountAndMaybeAcquireWakelock 4 1 example_wl)"
  have "wakelock_inv ?s" by (rule inc_inv [OF example_wl_inv]) (simp_all add: example_wl_def)
  moreover have "mThreadsRun ?s" "mWakelockTimeoutStartTime ?s = 4"
    by (simp_all add: wakelock_defs example_wl_def)
  ultimately show ?thesis
    using wakelock_thread_timeout [of ?s 10 aosp_consts 11]
    by (simp add: handleWakelocks_head_def sharedWakelockDidTimeout_def aosp_consts_def)
qed

end
