(* ===== verification/Event_Channel.thy ===== *)
theory Event_Channel
  imports Camellia_Prelude
begin

text \<open>
  What the path of events through \<open>src/sensors/HalProxy.cpp\<close> promises, without threads, counters and
  machine integers: a bounded first-in-first-out channel that may lose but not reorder. A batch that is offered
  while nothing waits may be sent in part at once; what is left of it waits if it fits below the
  limit, otherwise it is dropped as a whole. From the front of the waiting elements a number is
  taken out at a time, sent or lost; until they are released they still occupy the channel.
\<close>

record 'e channel =
  offered :: "'e list"
  sent :: "'e list"
  waiting :: "'e list"
  occupied :: nat

definition channel_init :: "'e channel \<Rightarrow> bool" where
  "channel_init ch \<longleftrightarrow> ch = \<lparr>offered = [], sent = [], waiting = [], occupied = 0\<rparr>"

definition admitted :: "nat \<Rightarrow> 'e channel \<Rightarrow> 'e list \<Rightarrow> 'e list" where
  "admitted limit ch es = (if occupied ch + length (waiting ch) + length es \<le> limit then es else [])"

inductive channel_step :: "nat \<Rightarrow> 'e channel \<Rightarrow> 'e channel \<Rightarrow> bool"
  for limit :: nat
  where
    offer: "channel_step limit ch (ch\<lparr>offered := offered ch @ es, sent := sent ch @ take k es,
        waiting := waiting ch @ admitted limit ch (drop k es)\<rparr>)"
      if "k = 0 \<or> waiting ch = [] \<and> occupied ch = 0"
  | transmit: "channel_step limit ch (ch\<lparr>sent := sent ch @ take n (waiting ch), waiting := drop n (waiting ch), occupied := n\<rparr>)"
      if "occupied ch = 0" "n \<le> length (waiting ch)"
  | lose: "channel_step limit ch (ch\<lparr>waiting := drop n (waiting ch), occupied := n\<rparr>)"
      if "occupied ch = 0" "n \<le> length (waiting ch)"
  | release: "channel_step limit ch (ch\<lparr>occupied := 0\<rparr>)"

inductive_cases channel_stepE [elim]: "channel_step limit ch ch'"

text \<open>Nothing is invented, duplicated or overtaken, and the channel never holds more than its limit.\<close>

definition channel_ok :: "nat \<Rightarrow> 'e channel \<Rightarrow> bool" where
  "channel_ok limit ch \<longleftrightarrow>
     subseq (sent ch @ waiting ch) (offered ch) \<and> occupied ch + length (waiting ch) \<le> limit"

lemma admitted_subseq: "subseq (take k es @ admitted limit ch (drop k es)) es"
  by (auto simp: admitted_def prefix_imp_subseq take_is_prefix)

lemma admitted_fits:
  "occupied ch + length (waiting ch) \<le> limit \<Longrightarrow>
     occupied ch + length (waiting ch) + length (admitted limit ch es) \<le> limit"
  by (simp add: admitted_def)

lemma channel_ok_step:
  assumes ok: "channel_ok limit ch" and step: "channel_step limit ch ch'"
  shows "channel_ok limit ch'"
  using step
proof cases
  case (offer k es)
  have e: "sent ch' @ waiting ch' = (sent ch @ waiting ch) @ take k es @ admitted limit ch (drop k es)"
    using offer by auto
  have "subseq (sent ch' @ waiting ch') (offered ch @ es)"
    unfolding e using ok by (intro list_emb_append_mono admitted_subseq) (simp add: channel_ok_def)
  then show ?thesis
    using ok offer(1) admitted_fits [of ch limit "drop k es"] by (simp add: channel_ok_def)
next
  case (lose n)
  have "subseq (sent ch @ drop n (waiting ch)) (sent ch @ waiting ch)"
    by (simp add: subseq_append' suffix_imp_subseq suffix_drop)
  with lose ok show ?thesis by (auto simp: channel_ok_def intro: subseq_order.order_trans)
qed (use ok in \<open>auto simp: channel_ok_def\<close>)

interpretation chan: transition_invariant channel_init "channel_step limit" "channel_ok limit" for limit
  by unfold_locales (simp add: channel_init_def channel_ok_def, rule channel_ok_step)

end
