(* ===== verification/Event_Queue.thy ===== *)
theory Event_Queue
  imports Wakelock Event_Channel
begin

text \<open>
  The path of sensor events from the sub-HALs to the framework in
  \<open>src/sensors/HalProxy.cpp\<close>: \<open>postEventsToMessageQueue\<close> writes what fits into the fast
  message queue and keeps the rest in \<open>mPendingWriteEventsQueue\<close>, the pending writes thread
  empties that queue. The message queue and its event flag belong to a library: the number
  of free slots (\<open>availableToWrite\<close>) and the success of a write are arguments, the writes
  that succeed and the wake-ups are recorded in the order in which they happen. A null
  message queue or flag and an empty front are explicit faults. \<open>event_fifo\<close> is the
  specification of the pair of operations.
\<close>

section \<open>State\<close>

record Event =
  event_sensorHandle :: i32
  event_sensorType :: i32
  event_scalar :: real
  event_timestamp :: int

datatype queue_call = FmqWrite "Event list" | FmqReadAll | WakeReadAndProcess | WakeEventsRead
  | NotifyPendingWrites | WakeLockQueueWrite u32 | WakeDataWritten

datatype hal_fault = NullEventQueue | NullEventQueueFlag | EmptyFront | OutOfRange | AssertViolated

text \<open>\<open>mEventQueue\<close> is null or the queue, of which the code asks only its quantum count.\<close>

record queue_state = wakelock_state +
  mPendingWriteEventsQueue :: "(Event list \<times> size_t) list"
  mSizePendingWriteEventsQueue :: size_t
  mMostEventsObservedPendingWriteEventsQueue :: size_t
  mEventQueue :: "size_t option"
  mEventQueueFlag :: bool
  queue_calls :: "queue_call list"

section \<open>Operations\<close>

text \<open>The second half of \<open>postEventsToMessageQueue\<close>: keep what was not written.\<close>

definition post_left ::
  "sensor_consts \<Rightarrow> Event list \<Rightarrow> size_t \<Rightarrow> size_t \<Rightarrow> 'a queue_state_scheme \<Rightarrow> 'a queue_state_scheme" where
  "post_left c events numWakeupEvents numToWrite s =
     (let numLeft = of_nat (length events) - numToWrite
      in if numToWrite < of_nat (length events)
            \<and> mSizePendingWriteEventsQueue s + numLeft \<le> kMaxSizePendingWriteEventsQueue c
         then
           let eventsLeft = drop (unat numToWrite) events;
               s = s\<lparr>mPendingWriteEventsQueue := mPendingWriteEventsQueue s @ [(eventsLeft, numWakeupEvents)]\<rparr>;
               s = s\<lparr>mSizePendingWriteEventsQueue := mSizePendingWriteEventsQueue s + numLeft\<rparr>;
               s = s\<lparr>mMostEventsObservedPendingWriteEventsQueue :=
                       max (mMostEventsObservedPendingWriteEventsQueue s) (mSizePendingWriteEventsQueue s)\<rparr>
           in s\<lparr>queue_calls := queue_calls s @ [NotifyPendingWrites]\<rparr>
         else s)"

definition postEventsToMessageQueue ::
  "sensor_consts \<Rightarrow> int \<Rightarrow> size_t \<Rightarrow> bool \<Rightarrow> Event list \<Rightarrow> size_t \<Rightarrow> bool \<Rightarrow>
     'a queue_state_scheme \<Rightarrow> hal_fault + 'a queue_state_scheme" where
  "postEventsToMessageQueue c now availableToWrite write_ok events numWakeupEvents isLocked s =
     (let s = (if isLocked then snd (incrementRefCountAndMaybeAcquireWakelock now numWakeupEvents s) else s)
      in if mPendingWriteEventsQueue s = [] then
           (if mEventQueue s = None then Inl NullEventQueue
            else
              let numToWrite = min (of_nat (length events)) availableToWrite
              in if numToWrite > 0 then
                   (if write_ok then
                      (if \<not> mEventQueueFlag s then Inl NullEventQueueFlag
                       else Inr (post_left c events numWakeupEvents numToWrite
                         (s\<lparr>queue_calls := queue_calls s
                              @ [FmqWrite (take (unat numToWrite) events), WakeReadAndProcess]\<rparr>)))
                    else Inr (post_left c events numWakeupEvents 0 s))
                 else Inr (post_left c events numWakeupEvents numToWrite s))
         else Inr (post_left c events numWakeupEvents 0 s))"

text \<open>
  \<open>mSensors[handle]\<close> inserts a value-initialised \<open>SensorInfo\<close> when the handle is not in the
  map, so counting can change the map.
\<close>

definition default_SensorInfo :: SensorInfo where
  "default_SensorInfo = \<lparr>sensorHandle = 0, sensorName = [], sensorType = 0, typeAsString = [],
     maxRange = 0, flags = 0\<rparr>"

definition mSensors_index :: "i32 \<Rightarrow> 'a sensors_state_scheme \<Rightarrow> SensorInfo \<times> 'a sensors_state_scheme" where
  "mSensors_index h s =
     (case map_of (mSensors s) (sint h) of
        Some x \<Rightarrow> (x, s)
      | None \<Rightarrow> (default_SensorInfo, s\<lparr>mSensors := smap_assign (sint h) default_SensorInfo (mSensors s)\<rparr>))"

fun countNumWakeupEvents_loop ::
  "sensor_consts \<Rightarrow> Event list \<Rightarrow> size_t \<Rightarrow> 'a sensors_state_scheme \<Rightarrow> size_t \<times> 'a sensors_state_scheme" where
  "countNumWakeupEvents_loop c [] n s = (n, s)"
| "countNumWakeupEvents_loop c (e # es) n s =
     (let (info, s) = mSensors_index (event_sensorHandle e) s
      in countNumWakeupEvents_loop c es (if flags info AND WAKE_UP c \<noteq> 0 then n + 1 else n) s)"

definition countNumWakeupEvents ::
  "sensor_consts \<Rightarrow> Event list \<Rightarrow> size_t \<Rightarrow> 'a sensors_state_scheme \<Rightarrow>
     hal_fault + size_t \<times> 'a sensors_state_scheme" where
  "countNumWakeupEvents c events n s =
     (if length events < unat n then Inl OutOfRange
      else Inr (countNumWakeupEvents_loop c (take (unat n) events) 0 s))"

text \<open>
  The pending writes thread. It gives up \<open>mEventQueueWriteMutex\<close> while it waits
  (\<open>WrWait\<close>) and from \<open>writeBlocking\<close> (\<open>WrWriting\<close>, with the locals \<open>numToWrite\<close>,
  \<open>numWakeupEvents\<close> and \<open>eventQueueSize\<close>) until it locks the mutex again (\<open>WrWritten\<close>, with \<open>numToWrite\<close>
  and \<open>eventQueueSize\<close>), so other threads may post in each of these places.
\<close>

datatype writer_pc = WrWait | WrWriting size_t size_t size_t | WrWritten size_t size_t | WrExited

definition handlePendingWrites_awake :: "'a queue_state_scheme \<Rightarrow> bool" where
  "handlePendingWrites_awake s \<longleftrightarrow> mPendingWriteEventsQueue s \<noteq> [] \<or> \<not> mThreadsRun s"

definition handlePendingWrites_head :: "'a queue_state_scheme \<Rightarrow> hal_fault + writer_pc" where
  "handlePendingWrites_head s =
     (if mThreadsRun s then
        (case mPendingWriteEventsQueue s of
           [] \<Rightarrow> Inl EmptyFront
         | (pendingWriteEvents, numWakeupEvents) # _ \<Rightarrow>
             (case mEventQueue s of
                None \<Rightarrow> Inl NullEventQueue
              | Some eventQueueSize \<Rightarrow>
                  Inr (WrWriting (min (of_nat (length pendingWriteEvents)) eventQueueSize)
                         numWakeupEvents eventQueueSize)))
      else Inr WrExited)"

text \<open>What happens to the wake lock when \<open>writeBlocking\<close> fails.\<close>

definition drop_failed_write ::
  "sensor_consts \<Rightarrow> Event list \<Rightarrow> size_t \<Rightarrow> size_t \<Rightarrow> 'a queue_state_scheme \<Rightarrow>
     hal_fault + 'a queue_state_scheme" where
  "drop_failed_write c pendingWriteEvents numWakeupEvents eventQueueSize s =
     (if numWakeupEvents > 0 then
        (if of_nat (length pendingWriteEvents) > eventQueueSize then
           (case countNumWakeupEvents c pendingWriteEvents eventQueueSize s of
              Inl f \<Rightarrow> Inl f
            | Inr (n, s) \<Rightarrow> Inr (decrementRefCountAndMaybeReleaseWakelock n (-1) s))
         else Inr (decrementRefCountAndMaybeReleaseWakelock numWakeupEvents (-1) s))
      else Inr s)"

text \<open>
  What the loop body does without the mutex once \<open>writeBlocking\<close> has returned \<open>ok\<close>. \<open>pendingWriteEvents\<close> is a
  reference to the front of the queue, which no other thread removes.
\<close>

definition handlePendingWrites_write ::
  "sensor_consts \<Rightarrow> bool \<Rightarrow> size_t \<Rightarrow> size_t \<Rightarrow> size_t \<Rightarrow> 'a queue_state_scheme \<Rightarrow>
     hal_fault + 'a queue_state_scheme" where
  "handlePendingWrites_write c ok numToWrite numWakeupEvents eventQueueSize s =
     (case mPendingWriteEventsQueue s of
        [] \<Rightarrow> Inl EmptyFront
      | (pendingWriteEvents, w) # rest \<Rightarrow>
          if ok then Inr (s\<lparr>queue_calls := queue_calls s @ [FmqWrite (take (unat numToWrite) pendingWriteEvents)]\<rparr>)
          else drop_failed_write c pendingWriteEvents numWakeupEvents eventQueueSize s)"

text \<open>The rest of the loop body, with the mutex.\<close>

definition handlePendingWrites_pop ::
  "size_t \<Rightarrow> size_t \<Rightarrow> 'a queue_state_scheme \<Rightarrow> hal_fault + 'a queue_state_scheme" where
  "handlePendingWrites_pop numToWrite eventQueueSize s =
     (case mPendingWriteEventsQueue s of
        [] \<Rightarrow> Inl EmptyFront
      | (pendingWriteEvents, w) # rest \<Rightarrow>
          let s = s\<lparr>mSizePendingWriteEventsQueue := mSizePendingWriteEventsQueue s - numToWrite\<rparr>
          in Inr (s\<lparr>mPendingWriteEventsQueue :=
               (if of_nat (length pendingWriteEvents) > eventQueueSize
                then (drop (unat eventQueueSize) pendingWriteEvents, w) # rest
                else rest)\<rparr>))"

text \<open>Both parts without another thread in between.\<close>

definition handlePendingWrites_finish ::
  "sensor_consts \<Rightarrow> bool \<Rightarrow> size_t \<Rightarrow> size_t \<Rightarrow> size_t \<Rightarrow> 'a queue_state_scheme \<Rightarrow>
     hal_fault + 'a queue_state_scheme" where
  "handlePendingWrites_finish c ok numToWrite numWakeupEvents eventQueueSize s =
     (case handlePendingWrites_write c ok numToWrite numWakeupEvents eventQueueSize s of
        Inl f \<Rightarrow> Inl f
      | Inr s \<Rightarrow> handlePendingWrites_pop numToWrite eventQueueSize s)"

section \<open>Specification\<close>

fun delivered_by :: "queue_call list \<Rightarrow> Event list" where
  "delivered_by [] = []"
| "delivered_by (FmqWrite es # cs) = es @ delivered_by cs"
| "delivered_by (_ # cs) = delivered_by cs"

definition delivered :: "'a queue_state_scheme \<Rightarrow> Event list" where
  "delivered s = delivered_by (queue_calls s)"

definition pending_events :: "'a queue_state_scheme \<Rightarrow> Event list" where
  "pending_events s = concat (map fst (mPendingWriteEventsQueue s))"

definition queue_inv :: "sensor_consts \<Rightarrow> 'a queue_state_scheme \<Rightarrow> bool" where
  "queue_inv c s \<longleftrightarrow>
     unat (mSizePendingWriteEventsQueue s) = length (pending_events s)
     \<and> mSizePendingWriteEventsQueue s \<le> mMostEventsObservedPendingWriteEventsQueue s
     \<and> mMostEventsObservedPendingWriteEventsQueue s \<le> kMaxSizePendingWriteEventsQueue c
     \<and> (\<forall>(es, w) \<in> set (mPendingWriteEventsQueue s). es \<noteq> [])"

text \<open>A batch is small enough for the size arithmetic when it cannot overflow \<open>size_t\<close>.\<close>

definition batch_fits :: "sensor_consts \<Rightarrow> Event list \<Rightarrow> bool" where
  "batch_fits c es \<longleftrightarrow> length es + unat (kMaxSizePendingWriteEventsQueue c) < 2 ^ 64"

text \<open>The program counter of the writer agrees with the front of the queue.\<close>

fun writer_ok :: "writer_pc \<Rightarrow> 'a queue_state_scheme \<Rightarrow> bool" where
  "writer_ok (WrWriting n w q) s \<longleftrightarrow>
     (\<exists>es rest. mPendingWriteEventsQueue s = (es, w) # rest \<and> n = min (of_nat (length es)) q)"
| "writer_ok (WrWritten n q) s \<longleftrightarrow>
     (\<exists>es w rest. mPendingWriteEventsQueue s = (es, w) # rest \<and> n = min (of_nat (length es)) q)"
| "writer_ok _ s \<longleftrightarrow> True"

text \<open>
  The events at the front that the writer has dealt with but not yet removed, and those that are still to be
  written.
\<close>

fun being_removed :: "writer_pc \<Rightarrow> nat" where
  "being_removed (WrWritten n q) = unat n"
| "being_removed _ = 0"

definition unsent :: "writer_pc \<Rightarrow> 'a queue_state_scheme \<Rightarrow> Event list" where
  "unsent pc s = drop (being_removed pc) (pending_events s)"

section \<open>Frame lemmas\<close>

lemma wakelock_queue_frame [queue_simps]:
  "mPendingWriteEventsQueue (snd (incrementRefCountAndMaybeAcquireWakelock now d s)) = mPendingWriteEventsQueue s"
  "mSizePendingWriteEventsQueue (snd (incrementRefCountAndMaybeAcquireWakelock now d s)) = mSizePendingWriteEventsQueue s"
  "mMostEventsObservedPendingWriteEventsQueue (snd (incrementRefCountAndMaybeAcquireWakelock now d s))
     = mMostEventsObservedPendingWriteEventsQueue s"
  "mEventQueue (snd (incrementRefCountAndMaybeAcquireWakelock now d s)) = mEventQueue s"
  "mEventQueueFlag (snd (incrementRefCountAndMaybeAcquireWakelock now d s)) = mEventQueueFlag s"
  "queue_calls (snd (incrementRefCountAndMaybeAcquireWakelock now d s)) = queue_calls s"
  "mPendingWriteEventsQueue (decrementRefCountAndMaybeReleaseWakelock d t s) = mPendingWriteEventsQueue s"
  "mSizePendingWriteEventsQueue (decrementRefCountAndMaybeReleaseWakelock d t s) = mSizePendingWriteEventsQueue s"
  "mMostEventsObservedPendingWriteEventsQueue (decrementRefCountAndMaybeReleaseWakelock d t s)
     = mMostEventsObservedPendingWriteEventsQueue s"
  "mEventQueue (decrementRefCountAndMaybeReleaseWakelock d t s) = mEventQueue s"
  "mEventQueueFlag (decrementRefCountAndMaybeReleaseWakelock d t s) = mEventQueueFlag s"
  "queue_calls (decrementRefCountAndMaybeReleaseWakelock d t s) = queue_calls s"
  "mPendingWriteEventsQueue (resetSharedWakelock now s) = mPendingWriteEventsQueue s"
  "mSizePendingWriteEventsQueue (resetSharedWakelock now s) = mSizePendingWriteEventsQueue s"
  "mMostEventsObservedPendingWriteEventsQueue (resetSharedWakelock now s)
     = mMostEventsObservedPendingWriteEventsQueue s"
  "mEventQueue (resetSharedWakelock now s) = mEventQueue s"
  "mEventQueueFlag (resetSharedWakelock now s) = mEventQueueFlag s"
  "queue_calls (resetSharedWakelock now s) = queue_calls s"
  by (simp_all add: wakelock_defs)

text \<open>Two states with the same queue fields; the wake lock and the sensor maps may differ.\<close>

definition same_queue :: "'a queue_state_scheme \<Rightarrow> 'a queue_state_scheme \<Rightarrow> bool" where
  "same_queue s s' \<longleftrightarrow>
     mPendingWriteEventsQueue s' = mPendingWriteEventsQueue s
     \<and> mSizePendingWriteEventsQueue s' = mSizePendingWriteEventsQueue s
     \<and> mMostEventsObservedPendingWriteEventsQueue s' = mMostEventsObservedPendingWriteEventsQueue s
     \<and> mEventQueue s' = mEventQueue s \<and> mEventQueueFlag s' = mEventQueueFlag s
     \<and> queue_calls s' = queue_calls s \<and> mThreadsRun s' = mThreadsRun s"

lemma same_queue_refl [simp]: "same_queue s s"
  by (simp add: same_queue_def)

lemma same_queue_trans: "same_queue s t \<Longrightarrow> same_queue t u \<Longrightarrow> same_queue s u"
  by (simp add: same_queue_def)

lemma same_queue_wakelock [simp]:
  "same_queue s (snd (incrementRefCountAndMaybeAcquireWakelock now d s))"
  "same_queue s (decrementRefCountAndMaybeReleaseWakelock d t s)"
  "same_queue s (resetSharedWakelock now s)"
  by (simp_all add: same_queue_def queue_simps wakelock_simps)

lemma same_queue_inv: "same_queue s s' \<Longrightarrow> queue_inv c s' = queue_inv c s"
  by (simp add: same_queue_def queue_inv_def pending_events_def)

lemma same_queue_delivered: "same_queue s s' \<Longrightarrow> delivered s' = delivered s"
  by (simp add: same_queue_def delivered_def)

lemma same_queue_pending: "same_queue s s' \<Longrightarrow> pending_events s' = pending_events s"
  by (simp add: same_queue_def pending_events_def)

lemma same_queue_writer: "same_queue s s' \<Longrightarrow> writer_ok pc s' = writer_ok pc s"
  by (cases pc) (simp_all add: same_queue_def)

lemma same_queue_index: "same_queue s (snd (mSensors_index h s))"
  by (simp add: mSensors_index_def same_queue_def split: option.splits)

lemma same_queue_count: "same_queue s (snd (countNumWakeupEvents_loop c es n s))"
proof (induction es arbitrary: n s)
  case Nil
  then show ?case by simp
next
  case (Cons e es)
  obtain info s' where i: "mSensors_index (event_sensorHandle e) s = (info, s')" by fastforce
  have "same_queue s s'" using same_queue_index [of s "event_sensorHandle e"] i by simp
  then show ?case using Cons.IH i by (auto intro: same_queue_trans)
qed

lemma same_queue_drop_failed:
  "drop_failed_write c es w q s = Inr s' \<Longrightarrow> same_queue s s'"
  using same_queue_count [of s c]
  by (auto simp: drop_failed_write_def countNumWakeupEvents_def intro: same_queue_trans
      split: if_splits sum.splits prod.splits)
    (metis same_queue_trans same_queue_wakelock(2) snd_conv)

lemmas same_queue_facts =
  same_queue_inv same_queue_delivered same_queue_pending same_queue_writer

lemma delivered_by_append [simp]: "delivered_by (xs @ ys) = delivered_by xs @ delivered_by ys"
  by (induction xs rule: delivered_by.induct) auto

section \<open>Posting events\<close>

lemma queue_inv_bounds:
  assumes "queue_inv c s"
  shows "length (pending_events s) \<le> unat (kMaxSizePendingWriteEventsQueue c)"
  using assms by (auto simp: queue_inv_def word_le_nat_alt)

lemma post_left_sizes:
  assumes inv: "queue_inv c s" and fits: "batch_fits c es" and n: "unat n \<le> length es"
  shows "unat (of_nat (length es) - n) = length es - unat n"
    and "n < of_nat (length es) \<longleftrightarrow> unat n < length es"
    and "unat (mSizePendingWriteEventsQueue s + (of_nat (length es) - n))
      = length (pending_events s) + (length es - unat n)"
proof -
  have l: "length es < 2 ^ 64" "unat (of_nat (length es) :: size_t) = length es"
    using fits by (simp_all add: batch_fits_def)
  show left: "unat (of_nat (length es) - n) = length es - unat n"
    using n l by (simp add: unat_minus_size word_le_nat_alt)
  show "n < of_nat (length es) \<longleftrightarrow> unat n < length es"
    by (simp add: word_less_nat_alt l)
  have "length (pending_events s) + (length es - unat n) < 2 ^ 64"
    using queue_inv_bounds [OF inv] fits by (simp add: batch_fits_def)
  then show "unat (mSizePendingWriteEventsQueue s + (of_nat (length es) - n))
      = length (pending_events s) + (length es - unat n)"
    using inv left by (simp add: unat_plus_size queue_inv_def)
qed

text \<open>Whether the part of a batch that was not written is kept.\<close>

definition kept :: "sensor_consts \<Rightarrow> nat \<Rightarrow> nat \<Rightarrow> bool" where
  "kept c pending left \<longleftrightarrow> pending + left \<le> unat (kMaxSizePendingWriteEventsQueue c)"

lemma post_left_effect:
  fixes w :: size_t
  assumes inv: "queue_inv c s" and fits: "batch_fits c es" and n: "unat n \<le> length es"
  defines "s' \<equiv> post_left c es w n s"
  shows "queue_inv c s'" and "delivered s' = delivered s"
    and "pending_events s' = pending_events s
      @ (if kept c (length (pending_events s)) (length es - unat n) then drop (unat n) es else [])"
proof -
  note sz = post_left_sizes [OF inv fits n]
  show "delivered s' = delivered s"
    by (simp add: s'_def post_left_def delivered_def Let_def)
  show "pending_events s' = pending_events s
      @ (if kept c (length (pending_events s)) (length es - unat n) then drop (unat n) es else [])"
    using n by (auto simp: s'_def post_left_def pending_events_def Let_def sz word_le_nat_alt kept_def
        sz(3) [unfolded pending_events_def])
  show "queue_inv c s'"
    using inv by (auto simp: s'_def post_left_def queue_inv_def pending_events_def Let_def sz
        word_le_nat_alt sz(3) [unfolded pending_events_def] max_def)
qed

lemma unat_min_length: "length es < 2 ^ 64 \<Longrightarrow> unat (min (of_nat (length es)) (a :: size_t)) = min (length es) (unat a)"
  by (simp add: unat_min)

text \<open>
  \<open>k\<close> events go to the message queue at once, the rest is kept or rejected as a whole.
\<close>

lemma post_effect:
  assumes inv: "queue_inv c s" and fits: "batch_fits c es"
    and post: "postEventsToMessageQueue c now avail ok es w locked s = Inr s'"
  obtains k where "k \<le> length es" "pending_events s \<noteq> [] \<Longrightarrow> k = 0" "queue_inv c s'"
    "delivered s' = delivered s @ take k es"
    "pending_events s' = pending_events s
      @ (if kept c (length (pending_events s)) (length es - k) then drop k es else [])"
    "k = (if mPendingWriteEventsQueue s = [] \<and> ok then min (length es) (unat avail) else 0)"
proof -
  define t where "t = (if locked then snd (incrementRefCountAndMaybeAcquireWakelock now w s) else s)"
  have st: "same_queue s t" by (simp add: t_def)
  note t = same_queue_facts [OF st]
  have empty: "mPendingWriteEventsQueue t = mPendingWriteEventsQueue s" using st by (simp add: same_queue_def)
  have l: "length es < 2 ^ 64" using fits by (simp add: batch_fits_def)
  define n where "n = min (of_nat (length es)) avail"
  have n: "unat n = min (length es) (unat avail)" by (simp only: n_def unat_min_length [OF l])
  define u where "u = t\<lparr>queue_calls := queue_calls t @ [FmqWrite (take (unat n) es), WakeReadAndProcess]\<rparr>"
  have u: "queue_inv c u" "delivered u = delivered s @ take (unat n) es" "pending_events u = pending_events s"
    using inv t by (simp_all add: u_def queue_inv_def pending_events_def delivered_def)
  have tinv: "queue_inv c t" using inv t by simp
  consider "s' = post_left c es w 0 t" "\<not> (mPendingWriteEventsQueue s = [] \<and> ok)"
    | "s' = post_left c es w n t" "n = 0" "mPendingWriteEventsQueue s = []"
    | "s' = post_left c es w n u" "mPendingWriteEventsQueue s = []" "ok"
    using post by (auto simp: postEventsToMessageQueue_def Let_def t_def [symmetric] n_def [symmetric]
        u_def [symmetric] empty word_gt_0 split: if_splits)
  then show ?thesis
  proof cases
    case 1
    with that [of 0] post_left_effect [OF tinv fits, of 0 w] t show ?thesis by (simp split: if_splits)
  next
    case 2
    have "min (length es) (unat avail) = 0" using n 2(2) by simp
    with that [of 0] post_left_effect [OF tinv fits, of n w] t 2 show ?thesis
      by (simp split: if_splits)
  next
    case 3
    have "pending_events s = []" using 3 by (simp add: pending_events_def)
    with that [of "unat n"] post_left_effect [OF u(1) fits, of n w] u 3 n show ?thesis by simp
  qed
qed

section \<open>The pending writes thread\<close>

lemma pending_split:
  assumes "mPendingWriteEventsQueue s = (es, w) # rest"
  shows "pending_events s = es @ concat (map fst rest)"
  using assms by (simp add: pending_events_def)

lemma front_length:
  assumes "queue_inv c s" and "mPendingWriteEventsQueue s = (es, w) # rest"
  shows "unat (of_nat (length es) :: size_t) = length es"
proof -
  have "length es \<le> unat (mSizePendingWriteEventsQueue s)"
    using assms pending_split [OF assms(2)] by (simp add: queue_inv_def)
  then show ?thesis by (rule le_unat_uoi)
qed

lemma drop_failed_total:
  assumes "unat (of_nat (length es) :: size_t) = length es"
  shows "\<exists>s'. drop_failed_write c es w q s = Inr s'"
  using assms
  by (auto simp: drop_failed_write_def countNumWakeupEvents_def word_less_nat_alt split: sum.splits prod.splits)

lemma written_length:
  assumes "queue_inv c s" and "mPendingWriteEventsQueue s = (es, w) # rest"
  shows "unat (min (of_nat (length es)) q :: size_t) = min (length es) (unat q)"
  by (simp add: unat_min front_length [OF assms])

lemma write_effect:
  assumes inv: "queue_inv c s" and wr: "writer_ok (WrWriting n w q) s"
  obtains s' where "handlePendingWrites_write c ok n w q s = Inr s'" "queue_inv c s'" "writer_ok (WrWritten n q) s'"
    "pending_events s' = pending_events s" "mPendingWriteEventsQueue s' = mPendingWriteEventsQueue s"
    "delivered s' = delivered s @ (if ok then take (unat n) (pending_events s) else [])"
    "mThreadsRun s' = mThreadsRun s" "mEventQueue s' = mEventQueue s" "mEventQueueFlag s' = mEventQueueFlag s"
proof -
  from wr obtain es rest where q: "mPendingWriteEventsQueue s = (es, w) # rest"
    and n: "n = min (of_nat (length es)) q" by auto
  have un: "unat n = min (length es) (unat q)" unfolding n by (rule written_length [OF inv q])
  obtain u where u: "drop_failed_write c es w q s = Inr u"
    using drop_failed_total [OF front_length [OF inv q]] by blast
  have su: "same_queue s u" using u by (rule same_queue_drop_failed)
  show ?thesis
  proof (cases ok)
    case True
    show ?thesis
      by (rule that [of "s\<lparr>queue_calls := queue_calls s @ [FmqWrite (take (unat n) es)]\<rparr>"])
        (use True inv q n un pending_split [OF q] in
          \<open>simp_all add: handlePendingWrites_write_def queue_inv_def pending_events_def delivered_def\<close>)
  next
    case False
    then have "handlePendingWrites_write c ok n w q s = Inr u" by (simp add: handlePendingWrites_write_def q u)
    with that [of u] same_queue_facts [OF su] su False inv q n show ?thesis by (simp add: same_queue_def)
  qed
qed

lemma pop_effect:
  assumes inv: "queue_inv c s" and wr: "writer_ok (WrWritten n q) s"
  obtains s' where "handlePendingWrites_pop n q s = Inr s'" "queue_inv c s'"
    "delivered s' = delivered s" "pending_events s' = drop (unat n) (pending_events s)"
    "unat n \<le> length (pending_events s)"
    "mThreadsRun s' = mThreadsRun s" "mEventQueue s' = mEventQueue s" "mEventQueueFlag s' = mEventQueueFlag s"
proof -
  from wr obtain es w rest where q: "mPendingWriteEventsQueue s = (es, w) # rest"
    and n: "n = min (of_nat (length es)) q" by auto
  note len = front_length [OF inv q] and p = pending_split [OF q]
  have un: "unat n = min (length es) (unat q)" unfolding n by (rule written_length [OF inv q])
  define s' where "s' = s\<lparr>mSizePendingWriteEventsQueue := mSizePendingWriteEventsQueue s - n,
     mPendingWriteEventsQueue := (if of_nat (length es) > q then (drop (unat q) es, w) # rest else rest)\<rparr>"
  have pe: "pending_events s' = drop (unat n) (pending_events s)"
    by (auto simp: s'_def pending_events_def p q un word_less_nat_alt len min_def)
  have le: "n \<le> mSizePendingWriteEventsQueue s"
    using inv p by (simp add: word_le_nat_alt un queue_inv_def)
  have "queue_inv c s'"
    using inv pe le q unfolding queue_inv_def
    by (auto simp: s'_def unat_minus_size word_le_nat_alt word_less_nat_alt len split: if_splits)
  moreover have "handlePendingWrites_pop n q s = Inr s'"
    by (simp add: handlePendingWrites_pop_def q s'_def Let_def)
  moreover have "unat n \<le> length (pending_events s)" by (simp add: p un)
  ultimately show ?thesis using that pe by (simp add: s'_def delivered_def)
qed

lemma write_effectD:
  assumes "queue_inv c s" "writer_ok (WrWriting n w q) s" "handlePendingWrites_write c ok n w q s = Inr s'"
  shows "queue_inv c s'" "writer_ok (WrWritten n q) s'" "pending_events s' = pending_events s"
    "delivered s' = delivered s @ (if ok then take (unat n) (pending_events s) else [])"
    "mEventQueue s' = mEventQueue s" "mEventQueueFlag s' = mEventQueueFlag s" "mThreadsRun s' = mThreadsRun s"
    "mPendingWriteEventsQueue s' = mPendingWriteEventsQueue s"
  by (rule write_effect [OF assms(1,2), of ok]; use assms(3) in force)+

lemma pop_effectD:
  assumes "queue_inv c s" "writer_ok (WrWritten n q) s" "handlePendingWrites_pop n q s = Inr s'"
  shows "queue_inv c s'" "delivered s' = delivered s" "pending_events s' = drop (unat n) (pending_events s)"
    "mEventQueue s' = mEventQueue s" "mEventQueueFlag s' = mEventQueueFlag s" "mThreadsRun s' = mThreadsRun s"
  by (rule pop_effect [OF assms(1,2)]; use assms(3) in force)+

lemma finish_effect:
  assumes inv: "queue_inv c s" and wr: "writer_ok (WrWriting n w q) s"
  obtains s' where "handlePendingWrites_finish c ok n w q s = Inr s'" "queue_inv c s'"
    "delivered s' = delivered s @ (if ok then take (unat n) (pending_events s) else [])"
    "pending_events s' = drop (unat n) (pending_events s)"
    "mThreadsRun s' = mThreadsRun s" "mEventQueue s' = mEventQueue s" "mEventQueueFlag s' = mEventQueueFlag s"
proof -
  obtain u where u: "handlePendingWrites_write c ok n w q s = Inr u" "queue_inv c u" "writer_ok (WrWritten n q) u"
    "pending_events u = pending_events s"
    "delivered u = delivered s @ (if ok then take (unat n) (pending_events s) else [])"
    "mThreadsRun u = mThreadsRun s" "mEventQueue u = mEventQueue s" "mEventQueueFlag u = mEventQueueFlag s"
    by (rule write_effect [OF inv wr])
  obtain t where "handlePendingWrites_pop n q u = Inr t" "queue_inv c t"
    "delivered t = delivered u" "pending_events t = drop (unat n) (pending_events u)"
    "mThreadsRun t = mThreadsRun u" "mEventQueue t = mEventQueue u" "mEventQueueFlag t = mEventQueueFlag u"
    by (rule pop_effect [OF u(2,3)])
  then show ?thesis using u by (intro that [of t]) (simp_all add: handlePendingWrites_finish_def)
qed

section \<open>The threads together\<close>

text \<open>
  The proxy's queue with its two threads, the sub-HALs that post and hold scoped wake locks,
  and the call that stops the threads; \<open>posted\<close> is the sequence of all events handed to
  \<open>postEventsToMessageQueue\<close>. Each step is what happens under one hold of a mutex.
\<close>

record pipeline =
  pq :: queue_state
  writer :: writer_pc
  wlthread :: wakelock_pc
  posted :: "Event list"

inductive pipeline_step :: "sensor_consts \<Rightarrow> pipeline \<Rightarrow> pipeline \<Rightarrow> bool"
  for c :: sensor_consts
  where
    post: "pipeline_step c p (p\<lparr>pq := q, posted := posted p @ es\<rparr>)"
      if "batch_fits c es" and "postEventsToMessageQueue c now avail ok es w locked (pq p) = Inr q"
  | writer_wake: "pipeline_step c p (p\<lparr>writer := pc\<rparr>)"
      if "writer p = WrWait" and "handlePendingWrites_awake (pq p)"
        and "handlePendingWrites_head (pq p) = Inr pc"
  | writer_write: "pipeline_step c p (p\<lparr>pq := q, writer := WrWritten n m\<rparr>)"
      if "writer p = WrWriting n w m" and "handlePendingWrites_write c ok n w m (pq p) = Inr q"
  | writer_pop: "pipeline_step c p (p\<lparr>pq := q, writer := WrWait\<rparr>)"
      if "writer p = WrWritten n m" and "handlePendingWrites_pop n m (pq p) = Inr q"
  | wakelock_wake: "pipeline_step c p (p\<lparr>pq := q, wlthread := pc\<rparr>)"
      if "wlthread p = WlHead" and "handleWakelocks_awake (pq p)"
        and "handleWakelocks_head c now now' (pq p) = (pc, q)"
  | wakelock_read: "pipeline_step c p (p\<lparr>pq := q, wlthread := pc\<rparr>)"
      if "wlthread p = WlReading timeLeft" and "handleWakelocks_read r (pq p) = (pc, q)"
  | scoped_lock: "pipeline_step c p (p\<lparr>pq := snd (incrementRefCountAndMaybeAcquireWakelock now 1 (pq p))\<rparr>)"
  | scoped_unlock: "pipeline_step c p (p\<lparr>pq := decrementRefCountAndMaybeReleaseWakelock 1 t (pq p)\<rparr>)"
  | stop_threads: "pipeline_step c p (p\<lparr>pq := (pq p)\<lparr>mThreadsRun := False\<rparr>\<rparr>)"

inductive_cases pipeline_stepE [elim]: "pipeline_step c p p'"

definition pipeline_init :: "sensor_consts \<Rightarrow> pipeline \<Rightarrow> bool" where
  "pipeline_init c p \<longleftrightarrow>
     mPendingWriteEventsQueue (pq p) = [] \<and> mSizePendingWriteEventsQueue (pq p) = 0
     \<and> mMostEventsObservedPendingWriteEventsQueue (pq p) \<le> kMaxSizePendingWriteEventsQueue c
     \<and> delivered (pq p) = [] \<and> mEventQueue (pq p) \<noteq> None \<and> mEventQueueFlag (pq p)
     \<and> writer p = WrWait \<and> wlthread p = WlHead \<and> posted p = []"

definition pipeline_inv :: "sensor_consts \<Rightarrow> pipeline \<Rightarrow> bool" where
  "pipeline_inv c p \<longleftrightarrow> queue_inv c (pq p) \<and> writer_ok (writer p) (pq p)
     \<and> mEventQueue (pq p) \<noteq> None \<and> mEventQueueFlag (pq p)"

lemma pipeline_inv_init: "pipeline_init c p \<Longrightarrow> pipeline_inv c p"
  by (auto simp: pipeline_init_def pipeline_inv_def queue_inv_def pending_events_def)

lemma pipeline_inv_same:
  assumes "pipeline_inv c p" and "same_queue (pq p) q"
  shows "pipeline_inv c (p\<lparr>pq := q\<rparr>)" and "pipeline_inv c (p\<lparr>pq := q, wlthread := pc\<rparr>)"
  using assms same_queue_facts [OF assms(2)] by (auto simp: pipeline_inv_def same_queue_def)

lemma post_front:
  assumes "postEventsToMessageQueue c now avail ok es w locked s = Inr s'"
    and "mPendingWriteEventsQueue s = x # xs"
  shows "\<exists>ys. mPendingWriteEventsQueue s' = x # ys"
  using assms by (auto simp: postEventsToMessageQueue_def post_left_def Let_def queue_simps split: if_splits)

lemma post_connection:
  assumes "postEventsToMessageQueue c now avail ok es w locked s = Inr s'"
  shows "mEventQueue s' = mEventQueue s \<and> mEventQueueFlag s' = mEventQueueFlag s"
  using assms by (auto simp: postEventsToMessageQueue_def post_left_def Let_def queue_simps split: if_splits)

lemma post_writer_ok:
  assumes "postEventsToMessageQueue c now avail ok es w locked s = Inr s'" and "writer_ok pc s"
  shows "writer_ok pc s'"
  using assms(2) post_front [OF assms(1)] by (cases pc) fastforce+

lemma head_writer_ok:
  assumes "handlePendingWrites_head s = Inr pc"
  shows "writer_ok pc s"
  using assms by (auto simp: handlePendingWrites_head_def split: if_splits list.splits option.splits)

lemma wakelock_thread_same_queue:
  "handleWakelocks_head c now now' s = (pc, q) \<Longrightarrow> same_queue s q"
  "handleWakelocks_read r s = (pc, q) \<Longrightarrow> same_queue s q"
  by (auto simp: handleWakelocks_head_def handleWakelocks_read_def split: if_splits option.splits)

lemma pipeline_inv_step:
  assumes inv: "pipeline_inv c p" and "pipeline_step c p p'"
  shows "pipeline_inv c p'"
  using assms(2)
proof cases
  case (post es now avail ok w locked q)
  have "queue_inv c q" by (rule post_effect [OF _ post(2,3)]) (use inv in \<open>auto simp: pipeline_inv_def\<close>)
  with post inv post_connection [OF post(3)] post_writer_ok [OF post(3)] show ?thesis
    by (simp add: pipeline_inv_def)
next
  case (writer_wake pc)
  with inv head_writer_ok show ?thesis by (auto simp: pipeline_inv_def)
next
  case (writer_write n w m ok q)
  with inv have "queue_inv c (pq p)" "writer_ok (WrWriting n w m) (pq p)" by (auto simp: pipeline_inv_def)
  from write_effectD [OF this writer_write(3)] writer_write inv show ?thesis by (simp add: pipeline_inv_def)
next
  case (writer_pop n m q)
  with inv have "queue_inv c (pq p)" "writer_ok (WrWritten n m) (pq p)" by (auto simp: pipeline_inv_def)
  from pop_effectD [OF this writer_pop(3)] writer_pop inv show ?thesis by (simp add: pipeline_inv_def)
next
  case (stop_threads)
  with inv show ?thesis
    by (cases "writer p") (auto simp: pipeline_inv_def queue_inv_def pending_events_def delivered_def)
qed (use inv in \<open>auto intro!: pipeline_inv_same dest: wakelock_thread_same_queue\<close>)

interpretation pl: transition_invariant "pipeline_init c" "pipeline_step c" "pipeline_inv c" for c
  by unfold_locales (auto intro: pipeline_inv_init pipeline_inv_step)

section \<open>The threads implement the channel\<close>

definition channel_of :: "pipeline \<Rightarrow> Event channel" where
  "channel_of p = \<lparr>offered = posted p, sent = delivered (pq p), waiting = unsent (writer p) (pq p),
     occupied = being_removed (writer p)\<rparr>"

abbreviation limit :: "sensor_consts \<Rightarrow> nat" where
  "limit c \<equiv> unat (kMaxSizePendingWriteEventsQueue c)"

lemma removed_le_pending:
  assumes "queue_inv c s" and "writer_ok pc s"
  shows "being_removed pc \<le> length (pending_events s)"
proof (cases pc)
  case (WrWritten n q)
  then have "writer_ok (WrWritten n q) s" using assms(2) by simp
  from pop_effect [OF assms(1) this] show ?thesis using WrWritten by (metis being_removed.simps(1))
qed simp_all

lemma channel_of_post:
  assumes inv: "pipeline_inv c p" and fits: "batch_fits c es"
    and post: "postEventsToMessageQueue c now avail ok es w locked (pq p) = Inr q"
  shows "channel_step (limit c) (channel_of p) (channel_of (p\<lparr>pq := q, posted := posted p @ es\<rparr>))"
proof -
  let ?P = "pending_events (pq p)" and ?r = "being_removed (writer p)"
  have qi: "queue_inv c (pq p)" "writer_ok (writer p) (pq p)" using inv by (auto simp: pipeline_inv_def)
  note r = removed_le_pending [OF qi]
  obtain k where k: "?P \<noteq> [] \<Longrightarrow> k = 0" "delivered q = delivered (pq p) @ take k es"
    "pending_events q = ?P @ (if kept c (length ?P) (length es - k) then drop k es else [])"
    using post_effect [OF qi(1) fits post] by metis
  have "k = 0 \<or> waiting (channel_of p) = [] \<and> occupied (channel_of p) = 0"
    using k(1) r by (cases "?P = []") (simp_all add: channel_of_def unsent_def)
  then have step: "channel_step (limit c) (channel_of p) ((channel_of p)\<lparr>offered := offered (channel_of p) @ es,
      sent := sent (channel_of p) @ take k es,
      waiting := waiting (channel_of p) @ admitted (limit c) (channel_of p) (drop k es)\<rparr>)"
    by (rule offer)
  have "?r + length (unsent (writer p) (pq p)) = length ?P" using r by (simp add: unsent_def)
  then have "admitted (limit c) (channel_of p) (drop k es) = (if kept c (length ?P) (length es - k) then drop k es else [])"
    by (simp add: admitted_def channel_of_def kept_def)
  with step k(2,3) r show ?thesis by (simp add: channel_of_def unsent_def)
qed

lemma channel_of_write:
  assumes inv: "pipeline_inv c p" and pc: "writer p = WrWriting n w m"
    and wr: "handlePendingWrites_write c ok n w m (pq p) = Inr q"
  shows "channel_step l (channel_of p) (channel_of (p\<lparr>pq := q, writer := WrWritten n m\<rparr>))"
proof -
  have qi: "queue_inv c (pq p)" "writer_ok (WrWriting n w m) (pq p)" using inv pc by (auto simp: pipeline_inv_def)
  note q = write_effectD [OF qi wr]
  have "unat n \<le> length (pending_events (pq p))"
    using removed_le_pending [OF q(1,2)] q(3) by simp
  then have n: "occupied (channel_of p) = 0" "unat n \<le> length (waiting (channel_of p))"
    by (simp_all add: channel_of_def unsent_def pc)
  show ?thesis
    using transmit [OF n, of l] lose [OF n, of l] q(3,4)
    by (cases ok) (simp_all add: channel_of_def unsent_def pc)
qed

lemma channel_of_pop:
  assumes inv: "pipeline_inv c p" and pc: "writer p = WrWritten n m"
    and pop: "handlePendingWrites_pop n m (pq p) = Inr q"
  shows "channel_step l (channel_of p) (channel_of (p\<lparr>pq := q, writer := WrWait\<rparr>))"
proof -
  have qi: "queue_inv c (pq p)" "writer_ok (WrWritten n m) (pq p)" using inv pc by (auto simp: pipeline_inv_def)
  show ?thesis
    using release [of l "channel_of p"] pop_effectD(2,3) [OF qi pop] by (simp add: channel_of_def unsent_def pc)
qed

lemma channel_of_same:
  "same_queue (pq p) q \<Longrightarrow> channel_of (p\<lparr>pq := q\<rparr>) = channel_of p"
  "same_queue (pq p) q \<Longrightarrow> channel_of (p\<lparr>pq := q, wlthread := wpc\<rparr>) = channel_of p"
  by (simp_all add: channel_of_def unsent_def same_queue_delivered same_queue_pending)

lemma head_removes_nothing: "handlePendingWrites_head s = Inr pc \<Longrightarrow> being_removed pc = 0"
  by (auto simp: handlePendingWrites_head_def split: if_splits list.splits option.splits)

lemma channel_of_step:
  assumes inv: "pipeline_inv c p" and step: "pipeline_step c p p'"
  shows "(channel_step (limit c))\<^sup>*\<^sup>* (channel_of p) (channel_of p')"
  using step
proof cases
  case post
  with channel_of_post [OF inv] show ?thesis by blast
next
  case (writer_wake pc)
  then have "channel_of p' = channel_of p"
    using head_removes_nothing [OF writer_wake(4)] by (simp add: channel_of_def unsent_def)
  then show ?thesis by simp
next
  case writer_write
  with channel_of_write [OF inv] show ?thesis by blast
next
  case writer_pop
  with channel_of_pop [OF inv] show ?thesis by blast
next
  case stop_threads
  then have "channel_of p' = channel_of p"
    by (simp add: channel_of_def unsent_def delivered_def pending_events_def)
  then show ?thesis by simp
qed (auto simp: channel_of_same dest: wakelock_thread_same_queue)

interpretation pc: refinement "pipeline_init c" "pipeline_step c" "pipeline_inv c"
    channel_init "channel_step (limit c)" channel_of for c
  by unfold_locales
    (simp add: pipeline_init_def channel_init_def channel_of_def unsent_def pending_events_def, rule channel_of_step)

section \<open>Counting wake-up events\<close>

definition wake_handles :: "sensor_consts \<Rightarrow> 'a sensors_state_scheme \<Rightarrow> Event \<Rightarrow> bool" where
  "wake_handles c s e \<longleftrightarrow> (\<exists>x. map_of (mSensors s) (sint (event_sensorHandle e)) = Some x
     \<and> flags x AND WAKE_UP c \<noteq> 0)"

lemma count_loop_known:
  assumes "\<forall>e \<in> set es. map_of (mSensors s) (sint (event_sensorHandle e)) \<noteq> None"
  shows "countNumWakeupEvents_loop c es n s = (n + of_nat (length (filter (wake_handles c s) es)), s)"
  using assms by (induction es arbitrary: n) (auto simp: mSensors_index_def wake_handles_def)

section \<open>The writer empties the queue\<close>

text \<open>One round of the loop with a write that succeeds, repeated while events are pending.\<close>

definition writer_round :: "sensor_consts \<Rightarrow> bool \<Rightarrow> 'a queue_state_scheme \<Rightarrow> hal_fault + 'a queue_state_scheme" where
  "writer_round c ok s =
     (case handlePendingWrites_head s of
        Inr (WrWriting n w q) \<Rightarrow> handlePendingWrites_finish c ok n w q s
      | Inr _ \<Rightarrow> Inr s
      | Inl f \<Rightarrow> Inl f)"

fun writer_rounds :: "nat \<Rightarrow> sensor_consts \<Rightarrow> 'a queue_state_scheme \<Rightarrow> hal_fault + 'a queue_state_scheme" where
  "writer_rounds 0 c s = Inr s"
| "writer_rounds (Suc k) c s =
     (if mPendingWriteEventsQueue s = [] then Inr s
      else case writer_round c True s of Inl f \<Rightarrow> Inl f | Inr s' \<Rightarrow> writer_rounds k c s')"

lemma pending_events_Nil_iff:
  "queue_inv c s \<Longrightarrow> pending_events s = [] \<longleftrightarrow> mPendingWriteEventsQueue s = []"
  by (cases "mPendingWriteEventsQueue s") (auto simp: pending_events_def queue_inv_def)

lemma writer_round_progress:
  assumes inv: "queue_inv c s" and run: "mThreadsRun s" and q: "mEventQueue s = Some q" "q \<noteq> 0"
    and ne: "mPendingWriteEventsQueue s \<noteq> []"
  obtains s' n where "writer_round c ok s = Inr s'" "queue_inv c s'" "mThreadsRun s'" "mEventQueue s' = Some q"
    "0 < n" "n \<le> length (pending_events s)" "pending_events s' = drop n (pending_events s)"
    "delivered s' = delivered s @ (if ok then take n (pending_events s) else [])"
proof -
  from ne obtain es w rest where f: "mPendingWriteEventsQueue s = (es, w) # rest" by (auto simp: neq_Nil_conv)
  let ?n = "min (of_nat (length es)) q"
  have h: "handlePendingWrites_head s = Inr (WrWriting ?n w q)"
    using run q f by (simp add: handlePendingWrites_head_def)
  have es: "es \<noteq> []" using inv f by (auto simp: queue_inv_def)
  have n: "unat ?n = min (length es) (unat q)" using front_length [OF inv f] by (simp add: unat_min)
  have "0 < unat ?n" "unat ?n \<le> length (pending_events s)"
    using es q(2) n pending_split [OF f] by (simp_all add: unat_gt_0)
  moreover obtain s' where "handlePendingWrites_finish c ok ?n w q s = Inr s'" "queue_inv c s'"
    "delivered s' = delivered s @ (if ok then take (unat ?n) (pending_events s) else [])"
    "pending_events s' = drop (unat ?n) (pending_events s)"
    "mThreadsRun s' = mThreadsRun s" "mEventQueue s' = mEventQueue s"
    by (rule finish_effect [OF inv, of ?n w q ok]) (use f in auto)
  ultimately show ?thesis using that [of s' "unat ?n"] h run q by (simp add: writer_round_def)
qed

section \<open>Properties\<close>

text \<open>
  C1: the threads implement a bounded first-in-first-out channel. Every state reached by any interleaving of posting
  sub-HALs, the pending writes thread, the wake lock thread and a stop is the image of a state that the
  abstract channel reaches with the limit \<open>kMaxSizePendingWriteEventsQueue\<close>: what was posted has been offered, what was written
  to the message queue has been sent, and what is pending and not yet written is waiting.
\<close>

theorem pipeline_refines_channel:
  assumes "reachable (pipeline_init c) (pipeline_step c) p"
  shows "reachable channel_init (channel_step (unat (kMaxSizePendingWriteEventsQueue c)))
    \<lparr>offered = posted p, sent = delivered (pq p), waiting = unsent (writer p) (pq p),
       occupied = being_removed (writer p)\<rparr>"
  using pc.reachable_abs [OF assms] by (simp add: channel_of_def)

text \<open>
  C2: first in, first out. In every such state, what has been written to the message
  queue followed by what is still to be written is a subsequence of what was posted: events are never
  reordered, duplicated or invented.
\<close>

theorem pipeline_fifo:
  assumes "reachable (pipeline_init c) (pipeline_step c) p"
  shows "subseq (delivered (pq p) @ unsent (writer p) (pq p)) (posted p)"
  using pc.abs_inv [OF chan.transition_invariant_axioms assms] by (simp add: channel_ok_def channel_of_def)

text \<open>
  The size counter of the pending queue is exact and bounded. In every reachable state
  \<open>mSizePendingWriteEventsQueue\<close> is the number of pending events, the recorded maximum is
  at least that and never exceeds \<open>kMaxSizePendingWriteEventsQueue\<close>, and no pending batch is
  empty.
\<close>

theorem pipeline_size_exact:
  assumes "reachable (pipeline_init c) (pipeline_step c) p"
  shows "unat (mSizePendingWriteEventsQueue (pq p)) = length (pending_events (pq p))
    \<and> mSizePendingWriteEventsQueue (pq p) \<le> mMostEventsObservedPendingWriteEventsQueue (pq p)
    \<and> mMostEventsObservedPendingWriteEventsQueue (pq p) \<le> kMaxSizePendingWriteEventsQueue c
    \<and> (\<forall>(es, w) \<in> set (mPendingWriteEventsQueue (pq p)). es \<noteq> [])"
  using pl.reachable_inv [OF assms] by (simp add: pipeline_inv_def queue_inv_def)

text \<open>
  No fault. In every reachable state a post does not dereference a null queue or flag, the
  writer never reads the front of an empty queue or an event beyond its end, and so each of
  their steps is defined.
\<close>

theorem pipeline_no_fault:
  assumes "reachable (pipeline_init c) (pipeline_step c) p"
  shows "(\<exists>q. postEventsToMessageQueue c now avail ok es w locked (pq p) = Inr q)
    \<and> (handlePendingWrites_awake (pq p) \<longrightarrow> (\<exists>pc. handlePendingWrites_head (pq p) = Inr pc))
    \<and> (\<forall>n w m. writer p = WrWriting n w m \<longrightarrow> (\<exists>q. handlePendingWrites_write c ok n w m (pq p) = Inr q))
    \<and> (\<forall>n m. writer p = WrWritten n m \<longrightarrow> (\<exists>q. handlePendingWrites_pop n m (pq p) = Inr q))"
proof (intro conjI allI impI)
  have inv: "pipeline_inv c p" using assms by (rule pl.reachable_inv)
  show "\<exists>q. postEventsToMessageQueue c now avail ok es w locked (pq p) = Inr q"
    using inv by (auto simp: pipeline_inv_def postEventsToMessageQueue_def Let_def queue_simps)
  show "\<exists>pc. handlePendingWrites_head (pq p) = Inr pc" if "handlePendingWrites_awake (pq p)"
    using inv that
    by (auto simp: pipeline_inv_def handlePendingWrites_head_def handlePendingWrites_awake_def
        split: list.splits option.splits)
  show "\<exists>q. handlePendingWrites_write c ok n w m (pq p) = Inr q" if "writer p = WrWriting n w m" for n w m
    using write_effect [of c "pq p" n w m ok] inv that unfolding pipeline_inv_def by metis
  show "\<exists>q. handlePendingWrites_pop n m (pq p) = Inr q" if "writer p = WrWritten n m" for n m
    using pop_effect [of c "pq p" n m] inv that unfolding pipeline_inv_def by metis
qed

text \<open>
  Nothing is lost below the limit. When the pending events and the batch together do not
  exceed \<open>kMaxSizePendingWriteEventsQueue\<close>, posting adds exactly the batch, in order, to what
  is delivered or pending; the events written at once are those the message queue has room
  for, and only if nothing was pending.
\<close>

theorem post_lossless:
  assumes inv: "queue_inv c s" and fits: "batch_fits c es"
    and room: "length (pending_events s) + length es \<le> unat (kMaxSizePendingWriteEventsQueue c)"
    and post: "postEventsToMessageQueue c now avail ok es w locked s = Inr s'"
  shows "delivered s' @ pending_events s' = delivered s @ pending_events s @ es
    \<and> delivered s' = delivered s
        @ take (if mPendingWriteEventsQueue s = [] \<and> ok then min (length es) (unat avail) else 0) es
    \<and> queue_inv c s'"
proof -
  obtain k where k: "pending_events s \<noteq> [] \<Longrightarrow> k = 0" "queue_inv c s'"
    "delivered s' = delivered s @ take k es"
    "pending_events s' = pending_events s
      @ (if kept c (length (pending_events s)) (length es - k) then drop k es else [])"
    "k = (if mPendingWriteEventsQueue s = [] \<and> ok then min (length es) (unat avail) else 0)"
    using post_effect [OF inv fits post] by metis
  have "kept c (length (pending_events s)) (length es - k)" using room by (simp add: kept_def)
  then have "delivered s' @ pending_events s' = delivered s @ pending_events s @ es"
    using k by (cases "pending_events s = []") auto
  with k show ?thesis by simp
qed

text \<open>
  A batch that exceeds the limit is dropped as a whole when events are pending, but its
  wake-up events stay counted: the wake lock reference count grows by their number although
  none of them will ever be acknowledged.
\<close>

theorem rejected_batch_stays_counted:
  assumes inv: "queue_inv c s" and fits: "batch_fits c es" and run: "mThreadsRun s"
    and busy: "mPendingWriteEventsQueue s \<noteq> []"
    and full: "length (pending_events s) + length es > unat (kMaxSizePendingWriteEventsQueue c)"
    and post: "postEventsToMessageQueue c now avail ok es w True s = Inr s'"
  shows "delivered s' = delivered s \<and> pending_events s' = pending_events s
    \<and> mWakelockRefCount s' = mWakelockRefCount s + w"
proof -
  obtain k where "delivered s' = delivered s @ take k es"
    "pending_events s' = pending_events s
      @ (if kept c (length (pending_events s)) (length es - k) then drop k es else [])"
    "k = (if mPendingWriteEventsQueue s = [] \<and> ok then min (length es) (unat avail) else 0)"
    using post_effect [OF inv fits post] by metis
  moreover have "mWakelockRefCount s' = mWakelockRefCount s + w"
    using post busy run
    by (auto simp: postEventsToMessageQueue_def post_left_def Let_def queue_simps inc_count split: if_splits)
  ultimately show ?thesis using busy full by (simp add: kept_def)
qed

text \<open>
  C17: The writer empties the queue. While the threads run, the message queue has a positive
  size and the writes succeed, as many rounds as there are pending events are enough to
  write all of them, in order, and to leave nothing pending.
\<close>

theorem writer_drains:
  assumes "queue_inv c s" and "mThreadsRun s" and "mEventQueue s = Some q" and "q \<noteq> 0"
    and "length (pending_events s) \<le> k"
  shows "\<exists>s'. writer_rounds k c s = Inr s' \<and> mPendingWriteEventsQueue s' = []
    \<and> delivered s' = delivered s @ pending_events s"
  using assms
proof (induction k arbitrary: s)
  case 0
  then show ?case using pending_events_Nil_iff by auto
next
  case (Suc k)
  show ?case
  proof (cases "mPendingWriteEventsQueue s = []")
    case True
    then show ?thesis by (simp add: pending_events_def)
  next
    case False
    obtain s' n where s': "writer_round c True s = Inr s'" "queue_inv c s'" "mThreadsRun s'"
      "mEventQueue s' = Some q" "0 < n" "n \<le> length (pending_events s)"
      "pending_events s' = drop n (pending_events s)" "delivered s' = delivered s @ take n (pending_events s)"
      using writer_round_progress [OF Suc.prems(1-4) False, of True] by (metis (full_types))
    then have "length (pending_events s') \<le> k" using Suc.prems(5) by simp
    with Suc.IH [OF s'(2-4) Suc.prems(4)] s' False show ?thesis by simp
  qed
qed

text \<open>
  \<open>countNumWakeupEvents\<close> counts the wake-up events among the first \<open>n\<close>, without changing
  the sensor map, provided every handle is one of a static sensor.
\<close>

theorem count_wakeup_correct:
  assumes "unat n \<le> length es"
    and "\<forall>e \<in> set (take (unat n) es). map_of (mSensors s) (sint (event_sensorHandle e)) \<noteq> None"
  shows "countNumWakeupEvents c es n s = Inr (of_nat (length (filter (wake_handles c s) (take (unat n) es))), s)"
  using assms by (simp add: countNumWakeupEvents_def count_loop_known)

text \<open>
  For a handle that is not in the static map (a dynamic sensor), counting adds a
  value-initialised sensor to that map, and the sensor list then reports it.
\<close>

theorem count_adds_unknown_sensor:
  assumes "smap_ok (mSensors s)" and "map_of (mSensors s) (sint (event_sensorHandle e)) = None"
  shows "\<exists>s'. countNumWakeupEvents c [e] 1 s = Inr (0, s')
    \<and> default_SensorInfo \<in> set (getSensorsList_2_1 s')
    \<and> length (getSensorsList_2_1 s') = Suc (length (getSensorsList_2_1 s))"
proof -
  let ?m = "smap_assign (sint (event_sensorHandle e)) default_SensorInfo (mSensors s)"
  have "map_of ?m (sint (event_sensorHandle e)) = Some default_SensorInfo"
    using map_of_smap_assign [OF assms(1)] by simp
  then have "(sint (event_sensorHandle e), default_SensorInfo) \<in> set ?m" by (rule map_of_SomeD)
  moreover have "length ?m = Suc (length (mSensors s))"
    using assms(2) by (rule length_smap_assign_new)
  ultimately show ?thesis using assms(2)
    by (auto simp: countNumWakeupEvents_def mSensors_index_def default_SensorInfo_def in_getSensorsList
        getSensorsList_2_1_def image_iff intro!: bexI)
qed

section \<open>The properties at concrete inputs\<close>

definition example_event :: "i32 \<Rightarrow> Event" where
  "example_event h = \<lparr>event_sensorHandle = h, event_sensorType = 1, event_scalar = 1, event_timestamp = 0\<rparr>"

definition example_q :: queue_state where
  "example_q = \<lparr>mSensors = [], mDynamicSensors = [], mDirectChannelSubHal = None,
     mThreadsRun = True, mWakelockRefCount = 0, mWakelockTimeoutStartTime = 0,
     mWakelockTimeoutResetTime = 0, wake_calls = [], mPendingWriteEventsQueue = [],
     mSizePendingWriteEventsQueue = 0, mMostEventsObservedPendingWriteEventsQueue = 0,
     mEventQueue = Some 2, mEventQueueFlag = True, queue_calls = []\<rparr>"

abbreviation example_batch :: "Event list" where
  "example_batch \<equiv> [example_event 1, example_event 2, example_event 3, example_event 4]"

text \<open>Four events, room for one in the message queue: three stay pending.\<close>

definition example_q1 :: queue_state where
  "example_q1 = example_q\<lparr>
     mPendingWriteEventsQueue := [([example_event 2, example_event 3, example_event 4], 0)],
     mSizePendingWriteEventsQueue := 3, mMostEventsObservedPendingWriteEventsQueue := 3,
     queue_calls := [FmqWrite [example_event 1], WakeReadAndProcess, NotifyPendingWrites]\<rparr>"

definition example_p0 :: pipeline where
  "example_p0 = \<lparr>pq = example_q, writer = WrWait, wlthread = WlHead, posted = []\<rparr>"

definition example_p1 :: pipeline where
  "example_p1 = \<lparr>pq = example_q1, writer = WrWait, wlthread = WlHead, posted = example_batch\<rparr>"

definition example_p2 :: pipeline where
  "example_p2 = example_p1\<lparr>writer := WrWriting 2 0 2\<rparr>"

lemma example_post:
  "postEventsToMessageQueue aosp_consts 5 1 True example_batch 0 False example_q = Inr example_q1"
  by (simp add: postEventsToMessageQueue_def post_left_def Let_def example_q_def example_q1_def aosp_consts_def)

lemma example_fits: "batch_fits aosp_consts example_batch"
  by (simp add: batch_fits_def aosp_consts_def)

lemma example_p0_init: "pipeline_init aosp_consts example_p0"
  by (simp add: pipeline_init_def example_p0_def example_q_def delivered_def)

lemma example_reach1: "reachable (pipeline_init aosp_consts) (pipeline_step aosp_consts) example_p1"
proof (rule reach_step)
  show "reachable (pipeline_init aosp_consts) (pipeline_step aosp_consts) example_p0"
    using example_p0_init by (rule reach_init)
  have "pipeline_step aosp_consts example_p0 (example_p0\<lparr>pq := example_q1, posted := posted example_p0 @ example_batch\<rparr>)"
    using example_post by (intro pipeline_step.post [OF example_fits]) (simp add: example_p0_def)
  then show "pipeline_step aosp_consts example_p0 example_p1"
    by (simp add: example_p0_def example_p1_def)
qed

lemma example_reach2: "reachable (pipeline_init aosp_consts) (pipeline_step aosp_consts) example_p2"
  unfolding example_p2_def
  by (rule reach_step [OF example_reach1], rule pipeline_step.writer_wake)
    (simp_all add: example_p1_def example_q1_def example_q_def handlePendingWrites_awake_def
      handlePendingWrites_head_def)

lemma example_q1_inv: "queue_inv aosp_consts example_q1"
  using pl.reachable_inv [OF example_reach1] by (simp add: pipeline_inv_def example_p1_def)

theorem pipeline_refines_channel_witness:
  "reachable channel_init (channel_step 100000)
     \<lparr>offered = example_batch, sent = [example_event 1], waiting = [example_event 2, example_event 3, example_event 4],
        occupied = 0\<rparr>"
  using pipeline_refines_channel [OF example_reach2]
  by (simp add: example_p2_def example_p1_def example_q1_def delivered_def unsent_def pending_events_def aosp_consts_def)

theorem pipeline_fifo_witness:
  "subseq ([example_event 1] @ unsent (writer example_p2) (pq example_p2)) (posted example_p2)"
  using pipeline_fifo [OF example_reach2]
  by (simp add: example_p2_def example_p1_def example_q1_def delivered_def)

theorem pipeline_size_exact_witness:
  "unat (mSizePendingWriteEventsQueue (pq example_p2)) = length (pending_events (pq example_p2))"
  using pipeline_size_exact [OF example_reach2] by blast

theorem pipeline_no_fault_witness:
  "\<exists>q. handlePendingWrites_write aosp_consts False 2 0 2 (pq example_p2) = Inr q"
  using pipeline_no_fault [OF example_reach2, where ok = False] by (simp add: example_p2_def)

theorem post_lossless_witness:
  "delivered example_q1 @ pending_events example_q1 = example_batch"
proof -
  have inv: "queue_inv aosp_consts example_q"
    and room: "length (pending_events example_q) + length example_batch
      \<le> unat (kMaxSizePendingWriteEventsQueue aosp_consts)"
    by (simp_all add: queue_inv_def example_q_def pending_events_def aosp_consts_def)
  have "delivered example_q @ pending_events example_q = []"
    by (simp add: example_q_def delivered_def pending_events_def)
  with post_lossless [OF inv example_fits room example_post, THEN conjunct1] show ?thesis by simp
qed

definition tiny_consts :: sensor_consts where
  "tiny_consts = aosp_consts\<lparr>kMaxSizePendingWriteEventsQueue := 3\<rparr>"

theorem rejected_batch_stays_counted_witness:
  "\<exists>s'. postEventsToMessageQueue tiny_consts 5 1 True [example_event 5] 1 True example_q1 = Inr s'
     \<and> pending_events s' = pending_events example_q1 \<and> mWakelockRefCount s' = 1"
proof -
  obtain s' where p: "postEventsToMessageQueue tiny_consts 5 1 True [example_event 5] 1 True example_q1 = Inr s'"
    by (simp add: postEventsToMessageQueue_def Let_def example_q1_def wakelock_defs example_q_def)
  have "queue_inv tiny_consts example_q1" "batch_fits tiny_consts [example_event 5]"
    "mThreadsRun example_q1" "mPendingWriteEventsQueue example_q1 \<noteq> []"
    "length (pending_events example_q1) + length [example_event 5] > unat (kMaxSizePendingWriteEventsQueue tiny_consts)"
    by (simp_all add: queue_inv_def batch_fits_def tiny_consts_def example_q1_def example_q_def pending_events_def)
  from rejected_batch_stays_counted [OF this p] p show ?thesis
    by (simp add: example_q1_def example_q_def)
qed

theorem writer_drains_witness:
  "\<exists>s'. writer_rounds 3 aosp_consts example_q1 = Inr s' \<and> mPendingWriteEventsQueue s' = []
     \<and> delivered s' = example_batch"
proof -
  have "mThreadsRun example_q1" "mEventQueue example_q1 = Some 2" "(2 :: size_t) \<noteq> 0"
    "length (pending_events example_q1) \<le> 3"
    by (simp_all add: example_q1_def example_q_def pending_events_def)
  from writer_drains [OF example_q1_inv this] show ?thesis
    by (simp add: example_q1_def delivered_def pending_events_def)
qed

lemma example_known:
  "\<forall>e \<in> set (take (unat (1 :: size_t)) [example_event 7, example_event 9]).
     map_of (mSensors (example_q\<lparr>mSensors := [(7, example_pickup)]\<rparr>)) (sint (event_sensorHandle e)) \<noteq> None"
  by (simp add: example_event_def)

theorem count_wakeup_correct_witness:
  "\<exists>s. countNumWakeupEvents aosp_consts [example_event 7, example_event 9] 1
     (example_q\<lparr>mSensors := [(7, example_pickup)]\<rparr>) = Inr (1, s)"
proof -
  have "unat (1 :: size_t) \<le> length [example_event 7, example_event 9]" by simp
  from count_wakeup_correct [OF this example_known, of aosp_consts] show ?thesis
    by (simp add: wake_handles_def example_event_def example_pickup_def aosp_consts_def)
qed

theorem count_adds_unknown_sensor_witness:
  "\<exists>s'. countNumWakeupEvents aosp_consts [example_event 7] 1 example_q = Inr (0, s')
     \<and> default_SensorInfo \<in> set (getSensorsList_2_1 s')"
proof -
  have "smap_ok (mSensors example_q)" "map_of (mSensors example_q) (sint (event_sensorHandle (example_event 7))) = None"
    by (simp_all add: example_q_def)
  from count_adds_unknown_sensor [OF this, of aosp_consts] show ?thesis by blast
qed

end
