(* ===== verification/Hal_Callback.thy ===== *)
theory Hal_Callback
  imports Event_Queue
begin

text \<open>
  \<open>src/sensors/HalProxyCallback.cpp\<close>: the object through which a sub-HAL posts its events.
  It tags the handles with the index of the sub-HAL, drops pick-up events whose value is not
  1, counts the wake-up events and hands the batch to \<open>postEventsToMessageQueue\<close>.
  \<open>getSensorInfo\<close> and \<open>areThreadsRunning\<close> are methods declared in a header outside the
  repository and are arguments; so is whether \<open>ALOG_ASSERT\<close> is compiled in.
\<close>

section \<open>Definitions\<close>

fun processEvents_loop ::
  "sensor_consts \<Rightarrow> (i32 \<Rightarrow> SensorInfo) \<Rightarrow> i32 \<Rightarrow> Event list \<Rightarrow> size_t \<Rightarrow> Event list \<Rightarrow> size_t \<times> Event list" where
  "processEvents_loop c getSensorInfo mSubHalIndex [] numWakeupEvents eventsOut = (numWakeupEvents, eventsOut)"
| "processEvents_loop c getSensorInfo mSubHalIndex (event # events) numWakeupEvents eventsOut =
     (let event = event\<lparr>event_sensorHandle :=
            callback_setSubHalIndex (event_sensorHandle event) (scast mSubHalIndex)\<rparr>;
          sensor = getSensorInfo (event_sensorHandle event)
      in if sensorType sensor = PICK_UP_GESTURE c \<and> event_scalar event \<noteq> 1
         then processEvents_loop c getSensorInfo mSubHalIndex events numWakeupEvents eventsOut
         else processEvents_loop c getSensorInfo mSubHalIndex events
                (if flags sensor AND WAKE_UP c \<noteq> 0 then numWakeupEvents + 1 else numWakeupEvents)
                (eventsOut @ [event]))"

definition processEvents ::
  "sensor_consts \<Rightarrow> (i32 \<Rightarrow> SensorInfo) \<Rightarrow> i32 \<Rightarrow> Event list \<Rightarrow> size_t \<times> Event list" where
  "processEvents c getSensorInfo mSubHalIndex events =
     processEvents_loop c getSensorInfo mSubHalIndex events 0 []"

text \<open>
  \<open>postEvents\<close> up to the call of \<open>postEventsToMessageQueue\<close>, which takes a mutex that nothing before it needs: \<open>None\<close>
  is the early return.
\<close>

definition postEvents_prepare ::
  "sensor_consts \<Rightarrow> bool \<Rightarrow> bool \<Rightarrow> (i32 \<Rightarrow> SensorInfo) \<Rightarrow> i32 \<Rightarrow> Event list \<Rightarrow> bool \<Rightarrow>
     hal_fault + (size_t \<times> Event list) option" where
  "postEvents_prepare c asserts areThreadsRunning getSensorInfo mSubHalIndex events isLocked =
     (if events = [] \<or> \<not> areThreadsRunning then Inr None
      else
        let (numWakeupEvents, processedEvents) = processEvents c getSensorInfo mSubHalIndex events
        in if asserts \<and> numWakeupEvents > 0 \<and> \<not> isLocked then Inl AssertViolated
           else if asserts \<and> \<not> numWakeupEvents > 0 \<and> isLocked then Inl AssertViolated
           else Inr (Some (numWakeupEvents, processedEvents)))"

definition postEvents ::
  "sensor_consts \<Rightarrow> bool \<Rightarrow> bool \<Rightarrow> (i32 \<Rightarrow> SensorInfo) \<Rightarrow> i32 \<Rightarrow> int \<Rightarrow> size_t \<Rightarrow> bool \<Rightarrow>
     Event list \<Rightarrow> bool \<Rightarrow> 'a queue_state_scheme \<Rightarrow> hal_fault + 'a queue_state_scheme" where
  "postEvents c asserts areThreadsRunning getSensorInfo mSubHalIndex now availableToWrite write_ok
     events isLocked s =
     (case postEvents_prepare c asserts areThreadsRunning getSensorInfo mSubHalIndex events isLocked of
        Inl f \<Rightarrow> Inl f
      | Inr None \<Rightarrow> Inr s
      | Inr (Some (numWakeupEvents, processedEvents)) \<Rightarrow>
          postEventsToMessageQueue c now availableToWrite write_ok processedEvents numWakeupEvents isLocked s)"

text \<open>
  \<open>createScopedWakelock\<close> constructs a \<open>ScopedWakelock\<close>, whose constructor (in the multi-HAL
  library) takes a reference when asked to lock: the result is the token, \<open>None\<close> for an
  unlocked object.
\<close>

definition createScopedWakelock ::
  "(int \<Rightarrow> size_t \<Rightarrow> 's \<Rightarrow> int option \<times> 's) \<Rightarrow> int \<Rightarrow> bool \<Rightarrow> 's \<Rightarrow> int option \<times> 's" where
  "createScopedWakelock increment now lock s = (if lock then increment now 1 s else (None, s))"

section \<open>Specification\<close>

definition tag_event :: "i32 \<Rightarrow> Event \<Rightarrow> Event" where
  "tag_event idx e = e\<lparr>event_sensorHandle := setSubHalIndex (event_sensorHandle e) (scast idx)\<rparr>"

definition passes :: "sensor_consts \<Rightarrow> (i32 \<Rightarrow> SensorInfo) \<Rightarrow> Event \<Rightarrow> bool" where
  "passes c info e \<longleftrightarrow>
     sensorType (info (event_sensorHandle e)) = PICK_UP_GESTURE c \<longrightarrow> event_scalar e = 1"

definition wakes :: "sensor_consts \<Rightarrow> (i32 \<Rightarrow> SensorInfo) \<Rightarrow> Event \<Rightarrow> bool" where
  "wakes c info e \<longleftrightarrow> flags (info (event_sensorHandle e)) AND WAKE_UP c \<noteq> 0"

section \<open>Lemmas\<close>

lemma processEvents_loop_eq:
  "processEvents_loop c info idx es n out =
     (let ys = filter (passes c info) (map (tag_event idx) es)
      in (n + of_nat (length (filter (wakes c info) ys)), out @ ys))"
  by (induction c info idx es n out rule: processEvents_loop.induct)
    (simp_all add: Let_def passes_def wakes_def tag_event_def callback_setSubHalIndex_eq)

lemma processEvents_eq:
  "processEvents c info idx es =
     (let ys = filter (passes c info) (map (tag_event idx) es)
      in (of_nat (length (filter (wakes c info) ys)), ys))"
  by (simp add: processEvents_def processEvents_loop_eq)

section \<open>Properties\<close>

text \<open>
  C26: What a sub-HAL posts is what is queued. \<open>processEvents\<close> keeps the order of the events,
  puts the index of the sub-HAL into every handle, drops exactly the pick-up events whose
  value is not 1, and counts exactly the remaining events of wake-up sensors.
\<close>

theorem process_events_correct:
  "processEvents c info idx es = (n, ys) \<longleftrightarrow>
     ys = filter (passes c info) (map (tag_event idx) es) \<and>
     n = of_nat (length (filter (wakes c info) ys))"
  by (auto simp: processEvents_eq Let_def)

text \<open>
  A posted event is addressed to the sub-HAL that posted it: for a handle with a clear
  first byte and an index below 128, the index and the sub-HAL's own handle are recovered
  from the queued event.
\<close>

theorem posted_event_owner:
  assumes "subHalIndexIsClear first_byte_mask (event_sensorHandle e)" and "sint idx \<in> {0..<128}"
  shows "extractSubHalIndex (event_sensorHandle (tag_event idx e)) = scast idx
    \<and> clearSubHalIndex first_byte_mask (event_sensorHandle (tag_event idx e)) = event_sensorHandle e"
proof -
  have "uint (scast idx :: size_t) = sint idx"
    unfolding scast_eq uint_word_of_int_eq
    by (rule take_bit_int_eq_self) (use assms(2) in auto)
  then have "(scast idx :: size_t) < 128" using assms(2) by (simp add: word_less_def)
  with assms(1) show ?thesis by (simp add: tag_event_def handle_simps)
qed

theorem posted_event_owner_witness:
  "extractSubHalIndex (event_sensorHandle (tag_event 3 (example_event 7))) = 3"
  using posted_event_owner [of "example_event 7" 3]
  by (simp add: example_event_def subHalIndexIsClear_def)

text \<open>
  The filter on pick-up events can empty a batch that was posted with a locked wake lock.
  A batch with one wake-up pick-up event whose value is not 1 violates the assertion of
  \<open>postEvents\<close> where assertions are compiled in; where they are not, and the count is zero
  (after a timeout reset), it leaves the wake lock held with a zero count.
\<close>

theorem filtered_pickup_breaks_wakelock:
  assumes "sensorType (info (event_sensorHandle (tag_event idx e))) = PICK_UP_GESTURE c"
    and "event_scalar e \<noteq> 1" and "mThreadsRun s"
  shows "postEvents c True True info idx now avail ok [e] True s = Inl AssertViolated
    \<and> (mEventQueue s \<noteq> None \<longrightarrow> mWakelockRefCount s = 0 \<longrightarrow>
        (\<exists>s'. postEvents c False True info idx now avail ok [e] True s = Inr s'
          \<and> mWakelockRefCount s' = 0 \<and> lock_held s'))"
proof -
  have "processEvents c info idx [e] = (0, [])"
    using assms by (simp add: processEvents_eq passes_def) (simp add: tag_event_def)
  then show ?thesis using assms(3)
    by (auto simp: postEvents_def postEvents_prepare_def postEventsToMessageQueue_def post_left_def Let_def wakelock_defs lock_held_def)
qed

theorem filtered_pickup_breaks_wakelock_witness:
  "\<exists>s'. postEvents aosp_consts False True (\<lambda>_. example_published) 1 5 2 True
      [example_event 7\<lparr>event_scalar := 0\<rparr>] True example_q = Inr s'
     \<and> mWakelockRefCount s' = 0 \<and> lock_held s'"
  using filtered_pickup_breaks_wakelock
    [of "\<lambda>_. example_published" 1 "example_event 7\<lparr>event_scalar := 0\<rparr>" aosp_consts example_q 5 2 True]
  by (simp add: example_published_def aosp_consts_def example_q_def)

end
