(* ===== verification/Hal_Proxy.thy ===== *)
theory Hal_Proxy
  imports Hal_Callback
begin

text \<open>
  The interface methods of \<open>src/sensors/HalProxy.cpp\<close>: requests dispatched to the sub-HAL
  that a handle names, the operation mode with its roll-back, direct channels, and the
  (re-)initialisation that stops the threads and starts them again. What a sub-HAL answers
  is given by \<open>subhal_env\<close>, a function of the calls made before, so every theorem holds for
  all sub-HALs; every call to one is recorded in \<open>subhal_calls\<close>. The sub-HALs are numbered
  by their position in \<open>mSubHalList\<close>.
\<close>

section \<open>Data\<close>

datatype Result = OK | BAD_VALUE | INVALID_OPERATION | OtherResult int

datatype OperationMode = NORMAL | OtherMode int

datatype RateLevel = STOP | OtherRate int

datatype sub_hal = SubHalWrapperV2_0 string | SubHalWrapperV2_1 string

datatype subhal_call =
    CallSetOperationMode OperationMode
  | CallActivate i32 bool
  | CallBatch i32 int int
  | CallFlush i32
  | CallInject Event
  | CallRegisterDirectChannel nat
  | CallUnregisterDirectChannel i32
  | CallConfigDirectReport i32 i32 RateLevel
  | CallInitialize nat

record subhal_env =
  subhal_result :: "(nat \<times> subhal_call) list \<Rightarrow> nat \<Rightarrow> subhal_call \<Rightarrow> Result"
  subhal_channel :: "(nat \<times> subhal_call) list \<Rightarrow> nat \<Rightarrow> subhal_call \<Rightarrow> Result \<times> i32"

record halproxy = queue_state +
  mSubHalList :: "sub_hal list"
  mCurrentOperationMode :: OperationMode
  mDynamicSensorsCallback :: bool
  mWakeLockQueue :: bool
  mWakelockQueueFlag :: bool
  mPendingWritesThread :: "writer_pc option"
  mWakelockThread :: "wakelock_pc option"
  subhal_calls :: "(nat \<times> subhal_call) list"

definition call_subhal ::
  "subhal_env \<Rightarrow> nat \<Rightarrow> subhal_call \<Rightarrow> halproxy \<Rightarrow> Result \<times> halproxy" where
  "call_subhal env i x s =
     (subhal_result env (subhal_calls s) i x, s\<lparr>subhal_calls := subhal_calls s @ [(i, x)]\<rparr>)"

section \<open>Requests for one sensor\<close>

definition mSubHalList_size :: "halproxy \<Rightarrow> size_t" where
  "mSubHalList_size s = of_nat (length (mSubHalList s))"

definition getSubHalForSensorHandle :: "i32 \<Rightarrow> nat" where
  "getSubHalForSensorHandle h = unat (extractSubHalIndex h)"

definition activate ::
  "sensor_consts \<Rightarrow> subhal_env \<Rightarrow> i32 \<Rightarrow> bool \<Rightarrow> halproxy \<Rightarrow> Result \<times> halproxy" where
  "activate c env h enabled s =
     (if \<not> isSubHalIndexValid (mSubHalList_size s) h then (BAD_VALUE, s)
      else call_subhal env (getSubHalForSensorHandle h)
             (CallActivate (clearSubHalIndex (kSensorHandleSubHalIndexMask c) h) enabled) s)"

definition batch ::
  "sensor_consts \<Rightarrow> subhal_env \<Rightarrow> i32 \<Rightarrow> int \<Rightarrow> int \<Rightarrow> halproxy \<Rightarrow> Result \<times> halproxy" where
  "batch c env h samplingPeriodNs maxReportLatencyNs s =
     (if \<not> isSubHalIndexValid (mSubHalList_size s) h then (BAD_VALUE, s)
      else call_subhal env (getSubHalForSensorHandle h)
             (CallBatch (clearSubHalIndex (kSensorHandleSubHalIndexMask c) h)
                samplingPeriodNs maxReportLatencyNs) s)"

definition flush :: "sensor_consts \<Rightarrow> subhal_env \<Rightarrow> i32 \<Rightarrow> halproxy \<Rightarrow> Result \<times> halproxy" where
  "flush c env h s =
     (if \<not> isSubHalIndexValid (mSubHalList_size s) h then (BAD_VALUE, s)
      else call_subhal env (getSubHalForSensorHandle h)
             (CallFlush (clearSubHalIndex (kSensorHandleSubHalIndexMask c) h)) s)"

text \<open>The conversions between the event versions are library functions: arguments.\<close>

definition injectSensorData ::
  "sensor_consts \<Rightarrow> (Event \<Rightarrow> Event) \<Rightarrow> subhal_env \<Rightarrow> Event \<Rightarrow> halproxy \<Rightarrow> Result \<times> halproxy" where
  "injectSensorData c convertToNewEvent env event s =
     (let result = (if mCurrentOperationMode s = NORMAL \<and> event_sensorType event \<noteq> ADDITIONAL_INFO c
                    then BAD_VALUE else OK)
      in if result = OK then
           (if \<not> isSubHalIndexValid (mSubHalList_size s) (event_sensorHandle event) then (BAD_VALUE, s)
            else
              let subHalEvent = event\<lparr>event_sensorHandle :=
                    clearSubHalIndex (kSensorHandleSubHalIndexMask c) (event_sensorHandle event)\<rparr>
              in call_subhal env (getSubHalForSensorHandle (event_sensorHandle event))
                   (CallInject (convertToNewEvent subHalEvent)) s)
         else (result, s))"

definition injectSensorData_2_1 ::
  "sensor_consts \<Rightarrow> (Event \<Rightarrow> Event) \<Rightarrow> (Event \<Rightarrow> Event) \<Rightarrow> subhal_env \<Rightarrow> Event \<Rightarrow> halproxy \<Rightarrow>
     Result \<times> halproxy" where
  "injectSensorData_2_1 c convertToNewEvent convertToOldEvent env event s =
     injectSensorData c convertToNewEvent env (convertToOldEvent event) s"

section \<open>Operation mode\<close>

text \<open>
  The first loop returns the result, the index at which it stopped and the state; the second
  resets the sub-HALs below that index and ignores their answers.
\<close>

fun setOperationMode_loop ::
  "subhal_env \<Rightarrow> OperationMode \<Rightarrow> nat \<Rightarrow> nat \<Rightarrow> halproxy \<Rightarrow> Result \<times> nat \<times> halproxy" where
  "setOperationMode_loop env mode 0 subHalIndex s = (OK, subHalIndex, s)"
| "setOperationMode_loop env mode (Suc n) subHalIndex s =
     (let (result, s) = call_subhal env subHalIndex (CallSetOperationMode mode) s
      in if result \<noteq> OK then (result, subHalIndex, s)
         else setOperationMode_loop env mode n (Suc subHalIndex) s)"

definition reset_modes :: "subhal_env \<Rightarrow> nat \<Rightarrow> halproxy \<Rightarrow> halproxy" where
  "reset_modes env subHalIndex s =
     fold (\<lambda>i s. snd (call_subhal env i (CallSetOperationMode (mCurrentOperationMode s)) s)) [0..<subHalIndex] s"

definition setOperationMode ::
  "subhal_env \<Rightarrow> OperationMode \<Rightarrow> halproxy \<Rightarrow> Result \<times> halproxy" where
  "setOperationMode env mode s =
     (let (result, subHalIndex, s) = setOperationMode_loop env mode (length (mSubHalList s)) 0 s
      in if result \<noteq> OK then (result, reset_modes env subHalIndex s)
         else (result, s\<lparr>mCurrentOperationMode := mode\<rparr>))"

section \<open>Direct channels\<close>

text \<open>The pair passed to the HIDL callback is the first component of the result.\<close>

definition registerDirectChannel ::
  "subhal_env \<Rightarrow> nat \<Rightarrow> halproxy \<Rightarrow> (Result \<times> i32) \<times> halproxy" where
  "registerDirectChannel env mem s =
     (case mDirectChannelSubHal s of
        None \<Rightarrow> ((INVALID_OPERATION, -1), s)
      | Some i \<Rightarrow> (subhal_channel env (subhal_calls s) i (CallRegisterDirectChannel mem),
          s\<lparr>subhal_calls := subhal_calls s @ [(i, CallRegisterDirectChannel mem)]\<rparr>))"

definition unregisterDirectChannel ::
  "subhal_env \<Rightarrow> i32 \<Rightarrow> halproxy \<Rightarrow> Result \<times> halproxy" where
  "unregisterDirectChannel env channelHandle s =
     (case mDirectChannelSubHal s of
        None \<Rightarrow> (INVALID_OPERATION, s)
      | Some i \<Rightarrow> call_subhal env i (CallUnregisterDirectChannel channelHandle) s)"

definition configDirectReport ::
  "sensor_consts \<Rightarrow> subhal_env \<Rightarrow> i32 \<Rightarrow> i32 \<Rightarrow> RateLevel \<Rightarrow> halproxy \<Rightarrow> (Result \<times> i32) \<times> halproxy" where
  "configDirectReport c env h channelHandle rate s =
     (case mDirectChannelSubHal s of
        None \<Rightarrow> ((INVALID_OPERATION, -1), s)
      | Some i \<Rightarrow>
          if h = -1 \<and> rate \<noteq> STOP then ((BAD_VALUE, -1), s)
          else
            let h = (if h \<noteq> -1 then clearSubHalIndex (kSensorHandleSubHalIndexMask c) h else h);
                x = CallConfigDirectReport h channelHandle rate
            in (subhal_channel env (subhal_calls s) i x, s\<lparr>subhal_calls := subhal_calls s @ [(i, x)]\<rparr>))"

section \<open>Starting and stopping\<close>

definition disableAllSensors :: "sensor_consts \<Rightarrow> subhal_env \<Rightarrow> halproxy \<Rightarrow> halproxy" where
  "disableAllSensors c env s =
     (let s = fold (\<lambda>(k, x) s. snd (activate c env (word_of_int k) False s)) (mSensors s) s
      in fold (\<lambda>(k, x) s. snd (activate c env (word_of_int k) False s)) (mDynamicSensors s) s)"

text \<open>\<open>stopThreads\<close> up to the two joins.\<close>

definition stopThreads_signal :: "halproxy \<Rightarrow> halproxy" where
  "stopThreads_signal s =
     (let s = s\<lparr>mThreadsRun := False\<rparr>;
          s = (if mEventQueueFlag s \<and> mEventQueue s \<noteq> None
               then s\<lparr>queue_calls := queue_calls s @ [FmqReadAll, WakeEventsRead]\<rparr> else s);
          s = (if mWakelockQueueFlag s \<and> mWakeLockQueue s
               then s\<lparr>queue_calls := queue_calls s @ [WakeLockQueueWrite 0, WakeDataWritten]\<rparr> else s);
          s = s\<lparr>wake_calls := wake_calls s @ [NotifyWakelockThread]\<rparr>
      in s\<lparr>queue_calls := queue_calls s @ [NotifyPendingWrites]\<rparr>)"

text \<open>
  The joins: with \<open>mThreadsRun\<close> cleared each thread runs to the end of its function. A writer
  that is inside \<open>writeBlocking\<close> finishes its round first (\<open>ok\<close> is the result of the write);
  the wake lock thread finishes a read (\<open>r\<close>) and makes its last reset at time \<open>now\<close>. This is the run in
  which the threads see the notification and nobody else acts; \<open>Hal_Session\<close> has all the others.
\<close>

definition join_writer :: "sensor_consts \<Rightarrow> bool \<Rightarrow> halproxy \<Rightarrow> hal_fault + halproxy" where
  "join_writer c ok s =
     (case (case mPendingWritesThread s of
              Some (WrWriting n w q) \<Rightarrow> handlePendingWrites_finish c ok n w q s
            | Some (WrWritten n q) \<Rightarrow> handlePendingWrites_pop n q s
            | _ \<Rightarrow> Inr s) of
        Inl f \<Rightarrow> Inl f
      | Inr s \<Rightarrow> Inr (s\<lparr>mPendingWritesThread := None\<rparr>))"

definition join_wakelock :: "u32 option \<Rightarrow> int \<Rightarrow> halproxy \<Rightarrow> halproxy" where
  "join_wakelock r now s =
     (let s = (case mWakelockThread s of
                 Some (WlReading t) \<Rightarrow> resetSharedWakelock now (snd (handleWakelocks_read r s))
               | Some WlHead \<Rightarrow> resetSharedWakelock now s
               | _ \<Rightarrow> s)
      in s\<lparr>mWakelockThread := None\<rparr>)"

definition stopThreads ::
  "sensor_consts \<Rightarrow> bool \<Rightarrow> u32 option \<Rightarrow> int \<Rightarrow> halproxy \<Rightarrow> hal_fault + halproxy" where
  "stopThreads c ok r now s =
     (case join_writer c ok (stopThreads_signal s) of
        Inl f \<Rightarrow> Inl f
      | Inr s \<Rightarrow> Inr (join_wakelock r now s))"

fun initialize_subhals ::
  "subhal_env \<Rightarrow> Result \<Rightarrow> nat \<Rightarrow> nat \<Rightarrow> halproxy \<Rightarrow> Result \<times> halproxy" where
  "initialize_subhals env result 0 i s = (result, s)"
| "initialize_subhals env result (Suc n) i s =
     (let (currRes, s) = call_subhal env i (CallInitialize i) s
      in if currRes \<noteq> OK then (currRes, s)
         else initialize_subhals env result n (Suc i) s)"

text \<open>
  \<open>initializeCommon\<close>, first from the point where the threads have been stopped, with the new message queue of
  \<open>quantum\<close> slots: \<open>event_flag\<close> and
  \<open>wakelock_flag\<close> say whether \<open>createEventFlag\<close> succeeded for the two queues, \<open>callback\<close>
  whether the framework passed a callback object. The two queues are freshly allocated by
  the callers and are never null.
\<close>

definition initializeCommon_rest ::
  "sensor_consts \<Rightarrow> subhal_env \<Rightarrow> int \<Rightarrow> size_t \<Rightarrow> bool \<Rightarrow> bool \<Rightarrow> bool \<Rightarrow> halproxy \<Rightarrow> Result \<times> halproxy" where
  "initializeCommon_rest c env now' quantum event_flag wakelock_flag callback s =
     (let s = resetSharedWakelock now' s;
          s = disableAllSensors c env s;
          s = s\<lparr>mPendingWriteEventsQueue := [], mSizePendingWriteEventsQueue := 0\<rparr>;
          s = s\<lparr>mDynamicSensors := []\<rparr>;
          s = s\<lparr>mDynamicSensorsCallback := callback\<rparr>;
          s = s\<lparr>mEventQueue := Some quantum\<rparr>;
          s = s\<lparr>mWakeLockQueue := True\<rparr>;
          s = s\<lparr>mEventQueueFlag := event_flag\<rparr>;
          s = s\<lparr>mWakelockQueueFlag := wakelock_flag\<rparr>;
          result = (if \<not> event_flag then BAD_VALUE else OK);
          result = (if \<not> wakelock_flag then BAD_VALUE else result);
          result = (if \<not> mDynamicSensorsCallback s \<or> mEventQueue s = None \<or> \<not> mWakeLockQueue s
                       \<or> \<not> mEventQueueFlag s then BAD_VALUE else result);
          s = s\<lparr>mThreadsRun := True\<rparr>;
          s = s\<lparr>mPendingWritesThread := Some WrWait\<rparr>;
          s = s\<lparr>mWakelockThread := Some WlHead\<rparr>;
          (result, s) = initialize_subhals env result (length (mSubHalList s)) 0 s
      in (result, s\<lparr>mCurrentOperationMode := NORMAL\<rparr>))"

definition initializeCommon ::
  "sensor_consts \<Rightarrow> subhal_env \<Rightarrow> bool \<Rightarrow> u32 option \<Rightarrow> int \<Rightarrow> int \<Rightarrow> size_t \<Rightarrow> bool \<Rightarrow> bool \<Rightarrow> bool \<Rightarrow>
     halproxy \<Rightarrow> hal_fault + Result \<times> halproxy" where
  "initializeCommon c env ok r now now' quantum event_flag wakelock_flag callback s =
     (case stopThreads c ok r now s of
        Inl f \<Rightarrow> Inl f
      | Inr s \<Rightarrow> Inr (initializeCommon_rest c env now' quantum event_flag wakelock_flag callback s))"

text \<open>
  The two entry points. A descriptor stands for the queue built from it: the number of slots
  and whether an event flag can be created on its flag word. The callback wrapper is a
  fresh object, so it is not null even when the framework passed a null callback.
\<close>

record mq_descriptor =
  mq_quantum :: size_t
  mq_flag_ok :: bool

definition initialize_2_1 ::
  "sensor_consts \<Rightarrow> subhal_env \<Rightarrow> bool \<Rightarrow> u32 option \<Rightarrow> int \<Rightarrow> int \<Rightarrow> mq_descriptor \<Rightarrow> mq_descriptor \<Rightarrow>
     halproxy \<Rightarrow> hal_fault + Result \<times> halproxy" where
  "initialize_2_1 c env ok r now now' eventQueueDescriptor wakeLockDescriptor s =
     initializeCommon c env ok r now now' (mq_quantum eventQueueDescriptor)
       (mq_flag_ok eventQueueDescriptor) (mq_flag_ok wakeLockDescriptor) True s"

definition initialize_2_0 ::
  "sensor_consts \<Rightarrow> subhal_env \<Rightarrow> bool \<Rightarrow> u32 option \<Rightarrow> int \<Rightarrow> int \<Rightarrow> mq_descriptor \<Rightarrow> mq_descriptor \<Rightarrow>
     halproxy \<Rightarrow> hal_fault + Result \<times> halproxy" where
  "initialize_2_0 c env ok r now now' eventQueueDescriptor wakeLockDescriptor s =
     initializeCommon c env ok r now now' (mq_quantum eventQueueDescriptor)
       (mq_flag_ok eventQueueDescriptor) (mq_flag_ok wakeLockDescriptor) True s"

section \<open>Lemmas on requests\<close>

lemma unat_size_t_ucast: "unat (ucast (x :: u32) :: size_t) = unat x"
proof -
  have "unat x < 2 ^ 32" using unsigned_less [of x] by simp
  then show ?thesis by (simp add: unsigned_ucast_eq take_bit_nat_eq_self)
qed

lemma scast_small_index:
  assumes "i < 128"
  shows "(scast (of_nat i :: i32) :: size_t) = of_nat i"
proof -
  have "sint (of_nat i :: i32) = int i"
    using assms by (simp add: sint_uint unsigned_of_nat take_bit_nat_eq_self signed_take_bit_int_eq_self)
  then show ?thesis by (simp add: scast_eq)
qed

lemma valid_index_iff:
  assumes "n \<le> 2 ^ 63"
  shows "isSubHalIndexValid n h \<longleftrightarrow> \<not> bit h 31 \<and> ucast (drop_bit 24 h) < n"
proof (cases "bit h 31")
  case True
  with assms negative_handle_invalid show ?thesis by blast
next
  case False
  have "extractSubHalIndex h = ucast (drop_bit 24 h)"
  proof (rule bit_word_eqI)
    fix n :: nat
    show "bit (extractSubHalIndex h) n = bit (ucast (drop_bit 24 h) :: size_t) n"
      using False bit_imp_le_length [of h "24 + n"]
      by (auto simp: extractSubHalIndex_def kBitsAfterSubHalIndex_def bit_simps)
  qed
  with False show ?thesis by (simp add: isSubHalIndexValid_def)
qed

lemma dispatch_handle:
  assumes "subHalIndexIsClear first_byte_mask h" and "i < length (mSubHalList s)"
    and "length (mSubHalList s) \<le> 128"
  shows "isSubHalIndexValid (mSubHalList_size s) (setSubHalIndex h (of_nat i))"
    and "getSubHalForSensorHandle (setSubHalIndex h (of_nat i)) = i"
    and "clearSubHalIndex first_byte_mask (setSubHalIndex h (of_nat i)) = h"
proof -
  have "(of_nat i :: size_t) < 128" using assms by (simp add: word_less_nat_alt)
  then show "isSubHalIndexValid (mSubHalList_size s) (setSubHalIndex h (of_nat i))"
    and "getSubHalForSensorHandle (setSubHalIndex h (of_nat i)) = i"
    and "clearSubHalIndex first_byte_mask (setSubHalIndex h (of_nat i)) = h"
    using assms by (simp_all add: isSubHalIndexValid_def mSubHalList_size_def
        getSubHalForSensorHandle_def handle_simps of_nat_less_size)
qed

section \<open>Lemmas on the operation mode\<close>

abbreviation set_calls :: "OperationMode \<Rightarrow> nat list \<Rightarrow> (nat \<times> subhal_call) list" where
  "set_calls mode is \<equiv> map (\<lambda>i. (i, CallSetOperationMode mode)) is"

lemma set_mode_loop:
  assumes "setOperationMode_loop env mode n k s = (r, j, s')"
  shows "(r = OK \<and> j = k + n \<and> s' = s\<lparr>subhal_calls := subhal_calls s @ set_calls mode [k..<k + n]\<rparr>)
    \<or> (r \<noteq> OK \<and> k \<le> j \<and> j < k + n
        \<and> s' = s\<lparr>subhal_calls := subhal_calls s @ set_calls mode [k..<Suc j]\<rparr>)"
  using assms
proof (induction n arbitrary: k s)
  case 0
  then show ?case by simp
next
  case (Suc n)
  let ?s = "s\<lparr>subhal_calls := subhal_calls s @ [(k, CallSetOperationMode mode)]\<rparr>"
  show ?case
  proof (cases "subhal_result env (subhal_calls s) k (CallSetOperationMode mode) = OK")
    case True
    with Suc.prems have "setOperationMode_loop env mode n (Suc k) ?s = (r, j, s')"
      by (simp add: call_subhal_def)
    from Suc.IH [OF this] show ?thesis
    proof (elim disjE conjE)
      assume "r = OK" "j = Suc k + n"
        "s' = ?s\<lparr>subhal_calls := subhal_calls ?s @ set_calls mode [Suc k..<Suc k + n]\<rparr>"
      then show ?thesis using upt_add_Suc [of k n] by simp
    next
      assume "r \<noteq> OK" "Suc k \<le> j" "j < Suc k + n"
        "s' = ?s\<lparr>subhal_calls := subhal_calls ?s @ set_calls mode [Suc k..<Suc j]\<rparr>"
      then show ?thesis using upt_Suc_Cons [of k j] by (simp del: upt_Suc)
    qed
  next
    case False
    with Suc.prems show ?thesis by (auto simp: call_subhal_def)
  qed
qed

lemma reset_modes_eq:
  "reset_modes env j s = s\<lparr>subhal_calls := subhal_calls s @ set_calls (mCurrentOperationMode s) [0..<j]\<rparr>"
  unfolding reset_modes_def by (induction j) (simp_all add: call_subhal_def)

section \<open>Lemmas on initialisation\<close>

definition disable_calls ::
  "sensor_consts \<Rightarrow> size_t \<Rightarrow> (int, SensorInfo) std_map \<Rightarrow> (nat \<times> subhal_call) list" where
  "disable_calls c n m =
     map (\<lambda>(k, x). (getSubHalForSensorHandle (word_of_int k),
        CallActivate (clearSubHalIndex (kSensorHandleSubHalIndexMask c) (word_of_int k)) False))
       (filter (\<lambda>(k, x). isSubHalIndexValid n (word_of_int k)) m)"

lemma in_disable_calls:
  "isSubHalIndexValid n (word_of_int k) \<Longrightarrow> k \<in> fst ` set m \<Longrightarrow>
     (getSubHalForSensorHandle (word_of_int k),
      CallActivate (clearSubHalIndex (kSensorHandleSubHalIndexMask c) (word_of_int k)) False)
     \<in> set (disable_calls c n m)"
  by (force simp: disable_calls_def)

lemma fold_disable:
  "fold (\<lambda>(k, x) s. snd (activate c env (word_of_int k) False s)) m s =
     s\<lparr>subhal_calls := subhal_calls s @ disable_calls c (mSubHalList_size s) m\<rparr>"
  by (induction m arbitrary: s)
    (auto simp: disable_calls_def activate_def call_subhal_def mSubHalList_size_def)

lemma disableAllSensors_eq:
  "disableAllSensors c env s = s\<lparr>subhal_calls := subhal_calls s
     @ disable_calls c (mSubHalList_size s) (mSensors s)
     @ disable_calls c (mSubHalList_size s) (mDynamicSensors s)\<rparr>"
  by (simp add: disableAllSensors_def fold_disable mSubHalList_size_def)

lemma initialize_subhals_calls:
  assumes "initialize_subhals env r n k s = (r', s')"
  shows "\<exists>m \<le> n. s' = s\<lparr>subhal_calls := subhal_calls s @ map (\<lambda>i. (i, CallInitialize i)) [k..<k + m]\<rparr>
    \<and> (r' = OK \<longrightarrow> m = n \<and> r = OK)"
  using assms
proof (induction n arbitrary: k s)
  case 0
  then show ?case by auto
next
  case (Suc n)
  let ?s = "s\<lparr>subhal_calls := subhal_calls s @ [(k, CallInitialize k)]\<rparr>"
  show ?case
  proof (cases "subhal_result env (subhal_calls s) k (CallInitialize k) = OK")
    case True
    with Suc.prems have "initialize_subhals env r n (Suc k) ?s = (r', s')"
      by (simp add: call_subhal_def)
    from Suc.IH [OF this] obtain m where "m \<le> n"
      "s' = ?s\<lparr>subhal_calls := subhal_calls ?s @ map (\<lambda>i. (i, CallInitialize i)) [Suc k..<Suc k + m]\<rparr>"
      "r' = OK \<longrightarrow> m = n \<and> r = OK" by blast
    then show ?thesis by (intro exI [of _ "Suc m"])
        (auto simp: upt_add_Suc [of k m] simp del: upt_Suc add_Suc_right)
  next
    case False
    with Suc.prems show ?thesis by (intro exI [of _ 1]) (auto simp: call_subhal_def)
  qed
qed

lemma count_loop_frame:
  "\<exists>m. snd (countNumWakeupEvents_loop c es n s) = s\<lparr>mSensors := m\<rparr> \<and> fst ` set (mSensors s) \<subseteq> fst ` set m"
proof (induction es arbitrary: n s)
  case Nil
  then show ?case by (intro exI [of _ "mSensors s"]) simp
next
  case (Cons e es)
  obtain info m where i: "mSensors_index (event_sensorHandle e) s = (info, s\<lparr>mSensors := m\<rparr>)"
    and m: "fst ` set (mSensors s) \<subseteq> fst ` set m"
  proof (cases "map_of (mSensors s) (sint (event_sensorHandle e))")
    case None
    then show ?thesis by (intro that) (simp add: mSensors_index_def, simp add: subset_insertI)
  next
    case (Some x)
    then show ?thesis by (intro that [of x "mSensors s"]) (simp_all add: mSensors_index_def)
  qed
  obtain m' where "snd (countNumWakeupEvents_loop c es (if flags info AND WAKE_UP c \<noteq> 0 then n + 1 else n)
      (s\<lparr>mSensors := m\<rparr>)) = s\<lparr>mSensors := m'\<rparr>" "fst ` set m \<subseteq> fst ` set m'"
    using Cons.IH [of "if flags info AND WAKE_UP c \<noteq> 0 then n + 1 else n" "s\<lparr>mSensors := m\<rparr>"] by fastforce
  with i m show ?case by (intro exI [of _ m']) auto
qed

lemma drop_failed_stopped:
  assumes "drop_failed_write c es w q s = Inr s'" and "\<not> mThreadsRun s"
  shows "\<exists>m. s' = s\<lparr>mSensors := m\<rparr> \<and> fst ` set (mSensors s) \<subseteq> fst ` set m"
proof -
  have stopped: "decrementRefCountAndMaybeReleaseWakelock n t u = u" if "\<not> mThreadsRun u" for n t and u :: "'a queue_state_scheme"
    using that by (simp add: decrementRefCountAndMaybeReleaseWakelock_def)
  obtain n m where "countNumWakeupEvents_loop c (take (unat q) es) 0 s = (n, s\<lparr>mSensors := m\<rparr>)"
    and "fst ` set (mSensors s) \<subseteq> fst ` set m"
    using count_loop_frame [of c "take (unat q) es" 0 s] by (metis prod.collapse)
  moreover from this have "s' = s \<or> s' = s\<lparr>mSensors := m\<rparr>"
    using assms by (auto simp: drop_failed_write_def countNumWakeupEvents_def stopped split: if_splits)
  moreover have "s = s\<lparr>mSensors := mSensors s\<rparr>" by simp
  ultimately show ?thesis by (metis order_refl)
qed

text \<open>The parts of the state that stopping the threads leaves alone (no sensor disappears).\<close>

definition same_core :: "halproxy \<Rightarrow> halproxy \<Rightarrow> bool" where
  "same_core s t \<longleftrightarrow>
     mWakelockRefCount t = mWakelockRefCount s \<and> lock_held t = lock_held s
     \<and> mMostEventsObservedPendingWriteEventsQueue t = mMostEventsObservedPendingWriteEventsQueue s
     \<and> mSubHalList t = mSubHalList s \<and> mDynamicSensors t = mDynamicSensors s
     \<and> mDirectChannelSubHal t = mDirectChannelSubHal s \<and> subhal_calls t = subhal_calls s
     \<and> fst ` set (mSensors s) \<subseteq> fst ` set (mSensors t)"

lemma same_core_refl [simp]: "same_core s s"
  by (simp add: same_core_def)

lemma same_core_trans: "same_core s t \<Longrightarrow> same_core t u \<Longrightarrow> same_core s u"
  
  using subset_trans [of "fst ` set (mSensors s)" "fst ` set (mSensors t)" "fst ` set (mSensors u)"]
  by (simp add: same_core_def)

lemma stop_signal_core: "same_core s (stopThreads_signal s) \<and> \<not> mThreadsRun (stopThreads_signal s)"
  by (simp add: same_core_def stopThreads_signal_def Let_def lock_held_def)

lemma write_stopped_core:
  assumes "\<not> mThreadsRun s" and "handlePendingWrites_write c ok n w q s = Inr s'"
  shows "same_core s s' \<and> \<not> mThreadsRun s'"
proof -
  obtain es wb rest where q: "mPendingWriteEventsQueue s = (es, wb) # rest"
    using assms(2) by (auto simp: handlePendingWrites_write_def split: list.splits)
  show ?thesis
  proof (cases ok)
    case True
    with assms q show ?thesis by (auto simp: handlePendingWrites_write_def same_core_def lock_held_def)
  next
    case False
    with assms(2) q have "drop_failed_write c es w q s = Inr s'" by (simp add: handlePendingWrites_write_def)
    from drop_failed_stopped [OF this assms(1)] obtain m
      where "s' = s\<lparr>mSensors := m\<rparr>" "fst ` set (mSensors s) \<subseteq> fst ` set m" by blast
    with assms(1) show ?thesis by (simp add: same_core_def lock_held_def)
  qed
qed

lemma pop_core:
  assumes "handlePendingWrites_pop n q s = Inr s'"
  shows "same_core s s' \<and> mThreadsRun s' = mThreadsRun s"
  using assms by (auto simp: handlePendingWrites_pop_def Let_def same_core_def lock_held_def split: list.splits)

lemma finish_stopped_core:
  assumes "\<not> mThreadsRun s" and "handlePendingWrites_finish c ok n w q s = Inr s'"
  shows "same_core s s' \<and> \<not> mThreadsRun s'"
  using assms write_stopped_core pop_core
  by (auto simp: handlePendingWrites_finish_def split: sum.splits) (blast intro: same_core_trans)+

lemma join_writer_core:
  assumes "\<not> mThreadsRun s" and "join_writer c ok s = Inr s'"
  shows "same_core s s' \<and> \<not> mThreadsRun s'"
proof -
  obtain t where t: "s' = t\<lparr>mPendingWritesThread := None\<rparr>"
    and "t = s \<or> (\<exists>n w q. handlePendingWrites_finish c ok n w q s = Inr t)
      \<or> (\<exists>n q. handlePendingWrites_pop n q s = Inr t)"
    using assms(2) by (fastforce simp: join_writer_def split: sum.splits option.splits writer_pc.splits)
  with finish_stopped_core [OF assms(1)] pop_core assms(1) have "same_core s t \<and> \<not> mThreadsRun t"
    by (metis same_core_refl)
  with t show ?thesis by (simp add: same_core_def lock_held_def)
qed

lemma reset_stopped: "\<not> mThreadsRun s \<Longrightarrow> resetSharedWakelock now s = s\<lparr>mWakelockTimeoutResetTime := now\<rparr>"
  by (simp add: wakelock_defs)

lemma join_wakelock_core:
  "\<not> mThreadsRun s \<Longrightarrow> same_core s (join_wakelock r now s) \<and> \<not> mThreadsRun (join_wakelock r now s)"
  by (auto simp: join_wakelock_def Let_def same_core_def lock_held_def reset_stopped handleWakelocks_read_def
      decrementRefCountAndMaybeReleaseWakelock_def split: option.splits wakelock_pc.splits)

lemma stop_core:
  assumes "stopThreads c ok r now s = Inr s'"
  shows "same_core s s' \<and> \<not> mThreadsRun s'"
proof -
  obtain t where t: "join_writer c ok (stopThreads_signal s) = Inr t" "s' = join_wakelock r now t"
    using assms by (auto simp: stopThreads_def split: sum.splits)
  have "same_core (stopThreads_signal s) t \<and> \<not> mThreadsRun t"
    using join_writer_core [OF _ t(1)] stop_signal_core by simp
  with join_wakelock_core [of t r now] stop_signal_core [of s] t(2) show ?thesis
    by (blast intro: same_core_trans)
qed

text \<open>What the initialisation sets, apart from the calls to the sub-HALs.\<close>

definition initialized :: "halproxy \<Rightarrow> int \<Rightarrow> size_t \<Rightarrow> bool \<Rightarrow> bool \<Rightarrow> bool \<Rightarrow> halproxy" where
  "initialized s now' quantum ef wfl cb =
     s\<lparr>mWakelockTimeoutResetTime := now', mPendingWriteEventsQueue := [],
       mSizePendingWriteEventsQueue := 0, mDynamicSensors := [], mDynamicSensorsCallback := cb,
       mEventQueue := Some quantum, mWakeLockQueue := True, mEventQueueFlag := ef,
       mWakelockQueueFlag := wfl, mThreadsRun := True, mPendingWritesThread := Some WrWait,
       mWakelockThread := Some WlHead, mCurrentOperationMode := NORMAL\<rparr>"

lemma initialize_rest_shape:
  assumes init: "initializeCommon_rest c env now' quantum ef wfl cb s = (res, s')" and stop: "\<not> mThreadsRun s"
  obtains m where
    "s' = initialized s now' quantum ef wfl cb\<lparr>subhal_calls := subhal_calls s
         @ disable_calls c (mSubHalList_size s) (mSensors s)
         @ disable_calls c (mSubHalList_size s) (mDynamicSensors s)
         @ map (\<lambda>i. (i, CallInitialize i)) [0..<m]\<rparr>"
    "m \<le> length (mSubHalList s)" "res = OK \<Longrightarrow> m = length (mSubHalList s) \<and> ef \<and> wfl \<and> cb"
proof -
  define u where "u = disableAllSensors c env (s\<lparr>mWakelockTimeoutResetTime := now'\<rparr>)\<lparr>mPendingWriteEventsQueue := [],
       mSizePendingWriteEventsQueue := 0, mDynamicSensors := [], mDynamicSensorsCallback := cb,
       mEventQueue := Some quantum, mWakeLockQueue := True, mEventQueueFlag := ef,
       mWakelockQueueFlag := wfl, mThreadsRun := True, mPendingWritesThread := Some WrWait,
       mWakelockThread := Some WlHead\<rparr>"
  define res0 where "res0 = (if ef \<and> wfl \<and> cb then OK else BAD_VALUE)"
  obtain res' v where v: "initialize_subhals env res0 (length (mSubHalList s)) 0 u = (res', v)" by fastforce
  have "initializeCommon_rest c env now' quantum ef wfl cb s = (res', v\<lparr>mCurrentOperationMode := NORMAL\<rparr>)"
    using stop v
    by (cases ef; cases wfl; cases cb)
      (simp_all add: initializeCommon_rest_def Let_def reset_stopped u_def res0_def disableAllSensors_eq)
  with init have r: "res' = res" "s' = v\<lparr>mCurrentOperationMode := NORMAL\<rparr>" by simp_all
  from initialize_subhals_calls [OF v] obtain m where m: "m \<le> length (mSubHalList s)"
    "v = u\<lparr>subhal_calls := subhal_calls u @ map (\<lambda>i. (i, CallInitialize i)) [0..<m]\<rparr>"
    "res' = OK \<longrightarrow> m = length (mSubHalList s) \<and> res0 = OK" by auto
  show ?thesis
    by (rule that [of m])
      (use m r in \<open>auto simp: u_def initialized_def res0_def disableAllSensors_eq mSubHalList_size_def split: if_splits\<close>)
qed

lemma initializeCommon_shape:
  assumes "initializeCommon c env ok r now now' quantum ef wfl cb s = Inr (res, s')"
  obtains s1 m where "same_core s s1"
    "s' = initialized s1 now' quantum ef wfl cb\<lparr>subhal_calls := subhal_calls s
         @ disable_calls c (mSubHalList_size s) (mSensors s1)
         @ disable_calls c (mSubHalList_size s) (mDynamicSensors s)
         @ map (\<lambda>i. (i, CallInitialize i)) [0..<m]\<rparr>"
    "m \<le> length (mSubHalList s)" "res = OK \<Longrightarrow> m = length (mSubHalList s) \<and> ef \<and> wfl \<and> cb"
proof -
  obtain s1 where s1: "stopThreads c ok r now s = Inr s1"
      "initializeCommon_rest c env now' quantum ef wfl cb s1 = (res, s')"
    using assms by (auto simp: initializeCommon_def split: sum.splits)
  have core: "same_core s s1" "\<not> mThreadsRun s1" using stop_core [OF s1(1)] by simp_all
  show ?thesis
    by (rule initialize_rest_shape [OF s1(2) core(2)])
      (use core(1) in \<open>auto intro!: that [of s1] simp: same_core_def mSubHalList_size_def\<close>)
qed

section \<open>Properties\<close>


text \<open>
  C23: a request for a sensor reaches its owner. For a sub-HAL handle \<open>h\<close> with a clear first byte
  and a sub-HAL \<open>i\<close> below 128, \<open>activate\<close>, \<open>batch\<close> and \<open>flush\<close> on the published handle
  \<open>setSubHalIndex h i\<close> are exactly one call to sub-HAL \<open>i\<close>, with its own handle \<open>h\<close> and the
  arguments unchanged, and return its answer.
\<close>

theorem request_dispatch:
  assumes mask: "kSensorHandleSubHalIndexMask c = first_byte_mask"
    and h: "subHalIndexIsClear first_byte_mask h"
    and i: "i < length (mSubHalList s)" "length (mSubHalList s) \<le> 128"
  shows "activate c env (setSubHalIndex h (of_nat i)) enabled s = call_subhal env i (CallActivate h enabled) s
    \<and> batch c env (setSubHalIndex h (of_nat i)) p l s = call_subhal env i (CallBatch h p l) s
    \<and> flush c env (setSubHalIndex h (of_nat i)) s = call_subhal env i (CallFlush h) s"
  using dispatch_handle [OF h i] by (simp add: activate_def batch_def flush_def mask)

text \<open>
  C24: a request for a handle that names no sub-HAL is refused with \<open>BAD_VALUE\<close> and calls no
  sub-HAL. These are exactly the handles with the sign bit set and those whose first byte is not
  an index of the sub-HAL list.
\<close>

theorem request_invalid:
  assumes "length (mSubHalList s) \<le> 2 ^ 63"
  shows "bit h 31 \<or> length (mSubHalList s) \<le> unat (drop_bit 24 h) \<longleftrightarrow>
     (\<forall>env enabled p l. activate c env h enabled s = (BAD_VALUE, s)
        \<and> batch c env h p l s = (BAD_VALUE, s) \<and> flush c env h s = (BAD_VALUE, s))"
    (is "?bad \<longleftrightarrow> ?refused")
proof -
  have "mSubHalList_size s \<le> 2 ^ 63" "unat (mSubHalList_size s) = length (mSubHalList s)"
    using assms by (simp_all add: mSubHalList_size_def word_le_nat_alt unat_of_nat take_bit_nat_eq_self)
  then have v: "isSubHalIndexValid (mSubHalList_size s) h \<longleftrightarrow> \<not> ?bad"
    by (auto simp: valid_index_iff word_less_nat_alt unat_size_t_ucast)
  show ?thesis
  proof
    assume ?bad
    with v show ?refused by (simp add: activate_def batch_def flush_def)
  next
    assume "?refused"
    then have "subhal_calls (snd (activate c undefined h True s)) = subhal_calls s" by simp
    then have "\<not> isSubHalIndexValid (mSubHalList_size s) h"
      by (auto simp: activate_def call_subhal_def)
    with v show ?bad by blast
  qed
qed

text \<open>
  \<open>injectSensorData\<close> in the NORMAL mode accepts only additional-info events: any other event
  is refused with \<open>BAD_VALUE\<close> and reaches no sub-HAL. An accepted event on the published handle of
  sub-HAL \<open>i\<close> is injected once, into sub-HAL \<open>i\<close>, with the sub-HAL's own handle.
\<close>

theorem inject_guard:
  assumes mask: "kSensorHandleSubHalIndexMask c = first_byte_mask"
    and h: "subHalIndexIsClear first_byte_mask h"
    and i: "i < length (mSubHalList s)" "length (mSubHalList s) \<le> 128"
    and e: "event_sensorHandle e = setSubHalIndex h (of_nat i)"
  shows "injectSensorData c conv env e s =
    (if mCurrentOperationMode s = NORMAL \<and> event_sensorType e \<noteq> ADDITIONAL_INFO c then (BAD_VALUE, s)
     else call_subhal env i (CallInject (conv (e\<lparr>event_sensorHandle := h\<rparr>))) s)"
  using dispatch_handle [OF h i] by (simp add: injectSensorData_def mask e)

text \<open>
  The direct channel operations talk to the direct channel sub-HAL only. Without one they
  answer \<open>INVALID_OPERATION\<close> (with channel \<open>-1\<close>) and change nothing; with one, each makes at most one
  call, to that sub-HAL. \<open>configDirectReport\<close> on handle \<open>-1\<close> is let through only to stop.
\<close>

theorem direct_channel_ops:
  assumes "r = snd (registerDirectChannel env mem s) \<or> r = snd (unregisterDirectChannel env ch s)
      \<or> r = snd (configDirectReport c env h ch rate s)"
  shows "case mDirectChannelSubHal s of
      None \<Rightarrow> r = s \<and> fst (registerDirectChannel env mem s) = (INVALID_OPERATION, -1)
        \<and> fst (unregisterDirectChannel env ch s) = INVALID_OPERATION
        \<and> fst (configDirectReport c env h ch rate s) = (INVALID_OPERATION, -1)
    | Some i \<Rightarrow> (r = s \<and> h = -1 \<and> rate \<noteq> STOP)
        \<or> (\<exists>x. r = s\<lparr>subhal_calls := subhal_calls s @ [(i, x)]\<rparr>)"
proof (cases "mDirectChannelSubHal s")
  case None
  with assms show ?thesis
    by (auto simp: registerDirectChannel_def unregisterDirectChannel_def configDirectReport_def)
next
  case (Some i)
  let ?made = "\<lambda>x. s\<lparr>subhal_calls := subhal_calls s @ [(i, x)]\<rparr>"
  have reg: "snd (registerDirectChannel env mem s) = ?made (CallRegisterDirectChannel mem)"
    unfolding registerDirectChannel_def Some by simp
  have unreg: "snd (unregisterDirectChannel env ch s) = ?made (CallUnregisterDirectChannel ch)"
    unfolding unregisterDirectChannel_def Some call_subhal_def by simp
  have conf: "snd (configDirectReport c env h ch rate s) = (if h = -1 \<and> rate \<noteq> STOP then s
      else ?made (CallConfigDirectReport
        (if h \<noteq> -1 then clearSubHalIndex (kSensorHandleSubHalIndexMask c) h else h) ch rate))"
    unfolding configDirectReport_def Some Let_def by simp
  have "(r = s \<and> h = -1 \<and> rate \<noteq> STOP) \<or> (\<exists>x. r = ?made x)"
    using assms unfolding reg unreg conf by (cases "h = -1 \<and> rate \<noteq> STOP") auto
  with Some show ?thesis by simp
qed

text \<open>
  C25: (re-)initialisation. Whatever the proxy was doing, after \<open>initializeCommon\<close> no event is
  pending and the queue invariant holds, the dynamic sensors are forgotten, the mode is NORMAL and
  both threads run again from their start. The wake lock and its count are carried over
  unchanged: the reset comes after the threads are told to stop, and then it does nothing.
\<close>

theorem initialize_state:
  assumes init: "initializeCommon c env ok r now now' quantum ef wfl cb s = Inr (res, s')"
    and most: "mMostEventsObservedPendingWriteEventsQueue s \<le> kMaxSizePendingWriteEventsQueue c"
  shows "pending_events s' = [] \<and> queue_inv c s' \<and> mDynamicSensors s' = []
    \<and> mCurrentOperationMode s' = NORMAL \<and> mThreadsRun s'
    \<and> mPendingWritesThread s' = Some WrWait \<and> mWakelockThread s' = Some WlHead
    \<and> mWakelockRefCount s' = mWakelockRefCount s \<and> lock_held s' = lock_held s"
  by (rule initializeCommon_shape [OF init])
    (use most in \<open>simp add: initialized_def queue_inv_def pending_events_def same_core_def lock_held_def\<close>)

text \<open>
  The order of calls during initialisation. First every static and dynamic sensor with a
  valid sub-HAL index is deactivated, then the sub-HALs are initialised in order up to the first
  one that fails; no sub-HAL is called otherwise. The result is \<open>OK\<close> only if all of them were
  initialised and both event flags and the callback are there.
\<close>

theorem initialize_calls:
  assumes init: "initializeCommon c env ok r now now' quantum ef wfl cb s = Inr (res, s')"
  shows "\<exists>ds m. subhal_calls s' = subhal_calls s @ ds @ map (\<lambda>i. (i, CallInitialize i)) [0..<m]
    \<and> (\<forall>(i, x) \<in> set ds. \<exists>h. x = CallActivate h False)
    \<and> (\<forall>k \<in> fst ` set (mSensors s) \<union> fst ` set (mDynamicSensors s).
         isSubHalIndexValid (mSubHalList_size s) (word_of_int k) \<longrightarrow>
         (getSubHalForSensorHandle (word_of_int k),
          CallActivate (clearSubHalIndex (kSensorHandleSubHalIndexMask c) (word_of_int k)) False) \<in> set ds)
    \<and> m \<le> length (mSubHalList s)
    \<and> (res = OK \<longrightarrow> m = length (mSubHalList s) \<and> ef \<and> wfl \<and> cb)"
proof (rule initializeCommon_shape [OF init])
  fix s1 :: halproxy and m
  let ?n = "mSubHalList_size s"
  let ?ds = "disable_calls c ?n (mSensors s1) @ disable_calls c ?n (mDynamicSensors s)"
  assume core: "same_core s s1" and m: "m \<le> length (mSubHalList s)"
    "res = OK \<Longrightarrow> m = length (mSubHalList s) \<and> ef \<and> wfl \<and> cb"
    and s': "s' = initialized s1 now' quantum ef wfl cb\<lparr>subhal_calls := subhal_calls s @ disable_calls c ?n (mSensors s1)
         @ disable_calls c ?n (mDynamicSensors s) @ map (\<lambda>i. (i, CallInitialize i)) [0..<m]\<rparr>"
  have "subhal_calls s' = subhal_calls s @ ?ds @ map (\<lambda>i. (i, CallInitialize i)) [0..<m]"
    by (simp add: s')
  moreover have "\<forall>(i, x) \<in> set ?ds. \<exists>h. x = CallActivate h False"
    by (auto simp: disable_calls_def)
  moreover have "fst ` set (mSensors s) \<union> fst ` set (mDynamicSensors s)
      \<subseteq> fst ` set (mSensors s1) \<union> fst ` set (mDynamicSensors s)"
    using core by (auto simp: same_core_def)
  then have "\<forall>k \<in> fst ` set (mSensors s) \<union> fst ` set (mDynamicSensors s).
      isSubHalIndexValid ?n (word_of_int k) \<longrightarrow>
      (getSubHalForSensorHandle (word_of_int k),
       CallActivate (clearSubHalIndex (kSensorHandleSubHalIndexMask c) (word_of_int k)) False) \<in> set ?ds"
    unfolding set_append by (blast intro: in_disable_calls)
  ultimately show ?thesis using m by blast
qed

section \<open>Witnesses\<close>

text \<open>Two sub-HALs of which the second refuses mode 1; one static and one dynamic sensor of it.\<close>

definition example_env :: subhal_env where
  "example_env = \<lparr>subhal_result = (\<lambda>_ i x. if i = 1 \<and> x = CallSetOperationMode (OtherMode 1)
       then INVALID_OPERATION else OK), subhal_channel = (\<lambda>_ _ _. (OK, 7))\<rparr>"

definition example_proxy :: halproxy where
  "example_proxy = \<lparr>mSensors = [(0x01000002, example_published)], mDynamicSensors = [(0x01000003, example_published)],
     mDirectChannelSubHal = Some 0, mThreadsRun = True, mWakelockRefCount = 1,
     mWakelockTimeoutStartTime = 0, mWakelockTimeoutResetTime = 0, wake_calls = [AcquireWakeLock],
     mPendingWriteEventsQueue = [([example_event 0x01000002], 1)], mSizePendingWriteEventsQueue = 1,
     mMostEventsObservedPendingWriteEventsQueue = 5, mEventQueue = Some 4, mEventQueueFlag = True,
     queue_calls = [], mSubHalList = [SubHalWrapperV2_0 ''a'', SubHalWrapperV2_1 ''b''],
     mCurrentOperationMode = NORMAL, mDynamicSensorsCallback = True, mWakeLockQueue = True,
     mWakelockQueueFlag = True, mPendingWritesThread = Some WrWait, mWakelockThread = Some WlHead,
     subhal_calls = []\<rparr>"

lemma example_proxy_fields:
  "length (mSubHalList example_proxy) = 2" "mCurrentOperationMode example_proxy = NORMAL"
  "subhal_calls example_proxy = []" "mDirectChannelSubHal example_proxy = Some 0"
  by (simp_all add: example_proxy_def)


lemma example_handle: "subHalIndexIsClear first_byte_mask 2"
  by (simp add: subHalIndexIsClear_def)

theorem request_dispatch_witness:
  "activate aosp_consts example_env (setSubHalIndex 2 (of_nat 1)) True example_proxy =
     call_subhal example_env 1 (CallActivate 2 True) example_proxy"
  using request_dispatch [OF aosp_mask example_handle, of 1 example_proxy]
  by (simp add: example_proxy_def)

theorem request_invalid_witness:
  "activate aosp_consts example_env 0x02000001 True example_proxy = (BAD_VALUE, example_proxy)"
proof -
  have n: "length (mSubHalList example_proxy) \<le> 2 ^ 63" by (simp add: example_proxy_def)
  have "length (mSubHalList example_proxy) \<le> unat (drop_bit 24 (0x02000001 :: i32))"
    by (simp add: example_proxy_def)
  with request_invalid [OF n, of "0x02000001" aosp_consts] show ?thesis by blast
qed

theorem inject_guard_witness:
  "injectSensorData aosp_consts id example_env (example_event (setSubHalIndex 2 (of_nat 1))) example_proxy
     = (BAD_VALUE, example_proxy)"
  using inject_guard [OF aosp_mask example_handle, of 1 example_proxy
      "example_event (setSubHalIndex 2 (of_nat 1))" id example_env]
  by (simp add: example_proxy_def example_event_def aosp_consts_def)

theorem direct_channel_ops_witness:
  "\<exists>x. snd (configDirectReport aosp_consts example_env 2 7 STOP example_proxy)
     = example_proxy\<lparr>subhal_calls := subhal_calls example_proxy @ [(0, x)]\<rparr>"
proof -
  let ?r = "snd (configDirectReport aosp_consts example_env 2 7 STOP example_proxy)"
  have "?r = snd (registerDirectChannel example_env 0 example_proxy)
      \<or> ?r = snd (unregisterDirectChannel example_env 7 example_proxy) \<or> ?r = ?r" by simp
  from direct_channel_ops [OF this] show ?thesis by (simp add: example_proxy_fields)
qed

lemma example_initialize:
  "\<exists>res s'. initializeCommon aosp_consts example_env True None 3 4 8 True True True example_proxy = Inr (res, s')"
  by (simp add: initializeCommon_def stopThreads_def join_writer_def stopThreads_signal_def Let_def
      example_proxy_def split: prod.splits)

theorem initialize_state_witness:
  "\<exists>res s'. initializeCommon aosp_consts example_env True None 3 4 8 True True True example_proxy = Inr (res, s')
     \<and> pending_events s' = [] \<and> mDynamicSensors s' = [] \<and> mWakelockRefCount s' = 1 \<and> lock_held s'"
proof -
  obtain res s' where i:
    "initializeCommon aosp_consts example_env True None 3 4 8 True True True example_proxy = Inr (res, s')"
    using example_initialize by blast
  have "mMostEventsObservedPendingWriteEventsQueue example_proxy \<le> kMaxSizePendingWriteEventsQueue aosp_consts"
    by (simp add: example_proxy_def aosp_consts_def)
  from initialize_state [OF i this] i show ?thesis
    by (simp add: example_proxy_def lock_held_def)
qed

theorem initialize_calls_witness:
  "\<exists>res s' ds m. initializeCommon aosp_consts example_env True None 3 4 8 True True True example_proxy = Inr (res, s')
     \<and> subhal_calls s' = ds @ map (\<lambda>i. (i, CallInitialize i)) [0..<m]
     \<and> (1, CallActivate 2 False) \<in> set ds"
proof -
  obtain res s' where i:
    "initializeCommon aosp_consts example_env True None 3 4 8 True True True example_proxy = Inr (res, s')"
    using example_initialize by blast
  have "isSubHalIndexValid (mSubHalList_size example_proxy) (word_of_int 0x01000002)"
    "getSubHalForSensorHandle (word_of_int 0x01000002) = 1"
    "clearSubHalIndex (kSensorHandleSubHalIndexMask aosp_consts) (word_of_int 0x01000002) = 2"
    "0x01000002 \<in> fst ` set (mSensors example_proxy)" "subhal_calls example_proxy = []"
    by (simp_all add: isSubHalIndexValid_def mSubHalList_size_def extractSubHalIndex_def
        getSubHalForSensorHandle_def clearSubHalIndex_def aosp_consts_def kBitsAfterSubHalIndex_def example_proxy_def)
  with initialize_calls [OF i] i show ?thesis by (metis (no_types, lifting) UnI1 append_Nil)
qed

end
