(* ===== verification/Cpp_String.thy ===== *)
theory Cpp_String
  imports Camellia_Prelude
begin

text \<open>
  The parts of \<open>std::string\<close> and of the C string functions that \<open>src/libinit\<close> and \<open>src/usb\<close>
  use, with positions at the width of \<open>size_t\<close>, so that \<open>npos\<close> and the wrap-around of
  position arithmetic are those of the code.
\<close>

section \<open>Operations\<close>

definition c_str :: "string \<Rightarrow> string" where
  "c_str s = takeWhile (\<lambda>c. c \<noteq> CHR 0x00) s"

definition npos :: size_t where
  "npos = -1"

fun find_from :: "string \<Rightarrow> string \<Rightarrow> nat \<Rightarrow> nat option" where
  "find_from d [] k = (if d = [] then Some k else None)"
| "find_from d (c # s) k = (if take (length d) (c # s) = d then Some k else find_from d s (Suc k))"

definition std_find :: "string \<Rightarrow> string \<Rightarrow> size_t" where
  "std_find s d = (case find_from d s 0 of None \<Rightarrow> npos | Some k \<Rightarrow> of_nat k)"

text \<open>\<open>None\<close> is the exception \<open>std::out_of_range\<close>.\<close>

definition std_substr :: "string \<Rightarrow> size_t \<Rightarrow> size_t \<Rightarrow> string option" where
  "std_substr s pos n =
     (if length s < unat pos then None else Some (take (unat n) (drop (unat pos) s)))"

definition std_erase :: "string \<Rightarrow> size_t \<Rightarrow> size_t \<Rightarrow> string option" where
  "std_erase s pos n =
     (if length s < unat pos then None
      else Some (take (unat pos) s @ drop (unat n) (drop (unat pos) s)))"

text \<open>The first call of \<open>strtok\<close> on a string; \<open>None\<close> is the null pointer.\<close>

definition strtok_first :: "string \<Rightarrow> string \<Rightarrow> string option" where
  "strtok_first s delim =
     (let t = dropWhile (\<lambda>c. c \<in> set delim) (c_str s)
      in if t = [] then None else Some (takeWhile (\<lambda>c. c \<notin> set delim) t))"

text \<open>A number that is not negative in decimal: \<open>%d\<close>, and \<open>operator<<\<close> of a stream.\<close>

fun decimal :: "nat \<Rightarrow> string" where
  "decimal n = (if n < 10 then [char_of (48 + n)] else decimal (n div 10) @ [char_of (48 + n mod 10)])"

declare decimal.simps [simp del]

definition decimal_int :: "int \<Rightarrow> string" where
  "decimal_int i = (if i < 0 then CHR ''-'' # decimal (nat (- i)) else decimal (nat i))"

text \<open>
  \<open>std::isspace\<close> in the default locale, and the words that repeated extraction from a stream
  into a string gives.
\<close>

definition cpp_isspace :: "char \<Rightarrow> bool" where
  "cpp_isspace c \<longleftrightarrow> (let k = of_char c :: nat in k = 32 \<or> (9 \<le> k \<and> k \<le> 13))"

function stream_words :: "string \<Rightarrow> string list" where
  "stream_words s =
     (let t = dropWhile cpp_isspace s
      in if t = [] then [] else takeWhile (Not \<circ> cpp_isspace) t # stream_words (dropWhile (Not \<circ> cpp_isspace) t))"
  by pat_completeness auto

lemma stream_words_shorter:
  assumes "dropWhile cpp_isspace s = c # t"
  shows "length (dropWhile (Not \<circ> cpp_isspace) (c # t)) < length s"
proof -
  have "\<not> cpp_isspace c" using hd_dropWhile [of cpp_isspace s] assms by simp
  then have "length (dropWhile (Not \<circ> cpp_isspace) (c # t)) \<le> length t" by (simp add: length_dropWhile_le)
  also have "\<dots> < length s" using length_dropWhile_le [of cpp_isspace s] assms by simp
  finally show ?thesis .
qed

termination stream_words
proof (relation "measure length")
  fix s t :: string
  assume t: "t = dropWhile cpp_isspace s" "t \<noteq> []"
  from t(2) obtain c u where "t = c # u" by (meson neq_Nil_conv)
  with t stream_words_shorter [of s c u] show "(dropWhile (Not \<circ> cpp_isspace) t, s) \<in> measure length"
    by simp
qed simp

declare stream_words.simps [simp del]

section \<open>Lemmas\<close>

lemma c_str_id: "CHR 0x00 \<notin> set s \<Longrightarrow> c_str s = s"
  unfolding c_str_def takeWhile_eq_all_conv by auto

lemma c_str_append: "CHR 0x00 \<notin> set s \<Longrightarrow> c_str (s @ t) = s @ c_str t"
  by (auto simp: c_str_def takeWhile_append)

lemma find_from_char:
  "find_from [c] s k = (if c \<in> set s then Some (k + length (takeWhile (\<lambda>x. x \<noteq> c) s)) else None)"
  by (induction s arbitrary: k) auto

lemma std_find_char:
  "std_find s [c] = (if c \<in> set s then of_nat (length (takeWhile (\<lambda>x. x \<noteq> c) s)) else npos)"
  by (simp add: std_find_def find_from_char)

lemma takeWhile_first: "c \<notin> set xs \<Longrightarrow> takeWhile (\<lambda>x. x \<noteq> c) (xs @ c # ys) = xs"
  by (induction xs) auto

lemma std_find_first:
  "c \<notin> set xs \<Longrightarrow> std_find (xs @ c # ys) [c] = of_nat (length xs)"
  by (simp add: std_find_char takeWhile_first)

lemma std_find_absent: "c \<notin> set xs \<Longrightarrow> std_find xs [c] = npos"
  by (simp add: std_find_char)

lemma find_from_Some:
  "find_from d s k = Some j \<Longrightarrow> \<exists>xs ys. s = xs @ d @ ys \<and> j = k + length xs"
proof (induction d s k rule: find_from.induct)
  case (1 d k)
  then show ?case by (auto split: if_splits)
next
  case (2 d c s k)
  show ?case
  proof (cases "take (length d) (c # s) = d")
    case True
    with "2.prems" have "c # s = [] @ d @ drop (length d) (c # s)" "j = k + length []"
      by (metis append_Nil append_take_drop_id, auto)
    then show ?thesis by blast
  next
    case False
    with 2 obtain xs ys where "s = xs @ d @ ys" "j = Suc k + length xs" by auto
    then have "c # s = (c # xs) @ d @ ys" "j = k + length (c # xs)" by simp_all
    then show ?thesis by blast
  qed
qed

lemma find_from_prefix: "take (length d) s = d \<Longrightarrow> find_from d s k = Some k"
  by (cases s) auto

lemma find_from_None: "find_from d s k = None \<longleftrightarrow> \<not> (\<exists>xs ys. s = xs @ d @ ys)"
proof
  assume n: "find_from d s k = None"
  show "\<not> (\<exists>xs ys. s = xs @ d @ ys)"
  proof (safe)
    fix xs ys assume "s = xs @ d @ ys"
    with n show False
    proof (induction xs arbitrary: s k)
      case Nil
      then show ?case using find_from_prefix [of d s k] by simp
    next
      case (Cons x xs)
      then show ?case by (auto split: if_splits)
    qed
  qed
next
  assume "\<not> (\<exists>xs ys. s = xs @ d @ ys)"
  then show "find_from d s k = None" using find_from_Some by (metis not_None_eq)
qed

lemma unat_npos [simp]: "unat npos = 2 ^ 64 - 1"
  by (simp add: npos_def unsigned_minus_1_eq_mask mask_eq_exp_minus_1)

lemma std_find_npos:
  assumes "length s < 2 ^ 64 - 1"
  shows "std_find s d = npos \<longleftrightarrow> \<not> (\<exists>xs ys. s = xs @ d @ ys)"
proof (cases "find_from d s 0")
  case None
  then show ?thesis using find_from_None [of d s 0] by (simp add: std_find_def)
next
  case (Some j)
  then obtain xs ys where x: "s = xs @ d @ ys" "j = length xs" using find_from_Some by fastforce
  then have "unat (of_nat j :: size_t) \<noteq> unat npos" using assms by simp
  with Some x show ?thesis by (auto simp: std_find_def)
qed

lemma std_substr_prefix: "std_substr s 0 n = Some (take (unat n) s)"
  by (simp add: std_substr_def)

lemma std_erase_prefix: "std_erase s 0 n = Some (drop (unat n) s)"
  by (simp add: std_erase_def)

lemma length_decimal: "length (decimal n) \<le> n + 1"
proof (induction n rule: decimal.induct)
  case (1 n)
  show ?case
  proof (cases "n < 10")
    case False
    then have "length (decimal (n div 10)) \<le> n div 10 + 1" by (rule "1.IH")
    with False show ?thesis by (simp add: decimal.simps [of n])
  qed (simp add: decimal.simps [of n])
qed

text \<open>The decimal representation can be read back, so different numbers give different strings.\<close>

definition read_decimal :: "string \<Rightarrow> nat" where
  "read_decimal s = foldl (\<lambda>a c. 10 * a + (of_char c - 48)) 0 s"

lemma read_decimal_decimal: "read_decimal (decimal n) = n"
proof (induction n rule: decimal.induct)
  case (1 n)
  show ?case
  proof (cases "n < 10")
    case True
    then show ?thesis by (simp add: decimal.simps [of n] read_decimal_def)
  next
    case False
    then have "read_decimal (decimal (n div 10)) = n div 10" by (rule "1.IH")
    with False show ?thesis by (simp add: decimal.simps [of n] read_decimal_def)
  qed
qed

lemma decimal_inject: "decimal m = decimal n \<longleftrightarrow> m = n"
  by (metis read_decimal_decimal)

text \<open>Extraction undoes any way of separating words by white space.\<close>

definition stream_word :: "string \<Rightarrow> bool" where
  "stream_word w \<longleftrightarrow> w \<noteq> [] \<and> list_all (Not \<circ> cpp_isspace) w"

lemma stream_words_Nil: "list_all cpp_isspace ws \<Longrightarrow> stream_words ws = []"
  by (subst stream_words.simps) (simp add: Let_def list_all_iff dropWhile_eq_Nil_conv)

lemma dropWhile_spaces:
  "list_all cpp_isspace ws \<Longrightarrow> stream_word w \<Longrightarrow> dropWhile cpp_isspace (ws @ w @ rest) = w @ rest"
  by (cases w) (auto simp: list_all_iff stream_word_def dropWhile_append2)

lemma stream_words_Cons:
  assumes "list_all cpp_isspace ws" "stream_word w" "cpp_isspace c"
  shows "stream_words (ws @ w @ c # rest) = w # stream_words (c # rest)"
  using assms dropWhile_spaces [OF assms(1,2), of "c # rest"]
  by (subst stream_words.simps) (auto simp: Let_def stream_word_def list_all_iff takeWhile_append dropWhile_append)

lemma stream_words_skip: "cpp_isspace c \<Longrightarrow> stream_words (c # rest) = stream_words rest"
  by (subst (1 2) stream_words.simps) simp

lemma stream_words_separated:
  "(\<And>w c. (w, c) \<in> set ps \<Longrightarrow> stream_word w \<and> cpp_isspace c) \<Longrightarrow>
     stream_words (concat (map (\<lambda>(w, c). w @ [c]) ps)) = map fst ps"
proof (induction ps)
  case Nil
  then show ?case by (simp add: stream_words_Nil)
next
  case (Cons p ps)
  obtain w c where p: "p = (w, c)" by fastforce
  with Cons.prems have "stream_word w" "cpp_isspace c" by auto
  moreover have "stream_words (concat (map (\<lambda>(w, c). w @ [c]) ps)) = map fst ps"
    by (rule Cons.IH) (meson Cons.prems list.set_intros(2))
  ultimately show ?case
    using p stream_words_Cons [of "[]" w c "concat (map (\<lambda>(w, c). w @ [c]) ps)"] by (simp add: stream_words_skip)
qed

lemma stream_words_sound: "w \<in> set (stream_words s) \<Longrightarrow> stream_word w"
proof (induction s rule: stream_words.induct)
  case (1 s)
  define t where "t = dropWhile cpp_isspace s"
  show ?case
  proof (cases t)
    case Nil
    with 1 show ?thesis by (simp add: t_def stream_words.simps [of s])
  next
    case (Cons c u)
    then have c: "\<not> cpp_isspace c" using hd_dropWhile [of cpp_isspace s] by (simp add: t_def)
    then have "stream_word (takeWhile (Not \<circ> cpp_isspace) t)"
      using Cons by (auto simp: stream_word_def list_all_iff dest: set_takeWhileD)
    moreover have "stream_words s = takeWhile (Not \<circ> cpp_isspace) t # stream_words (dropWhile (Not \<circ> cpp_isspace) t)"
      using Cons by (simp add: stream_words.simps [of s] t_def [symmetric] Let_def)
    moreover have "w \<in> set (stream_words (dropWhile (Not \<circ> cpp_isspace) t)) \<Longrightarrow> stream_word w"
      using "1.IH" [OF t_def] Cons by blast
    ultimately show ?thesis using "1.prems" by auto
  qed
qed

end
