(* ===== verification/Hal_Loader.thy ===== *)
theory Hal_Loader
  imports Hal_Proxy Cpp_String
begin

text \<open>
  Construction and inspection of the proxy of \<open>src/sensors/HalProxy.cpp\<close>: the configuration file
  that lists the sub-HAL libraries, the search for a library, the entry points of the two interface
  versions, the three constructors, the destructor and the debug dump.

  The dynamic linker, the file system and the loaded libraries are the record \<open>loader_env\<close>; the
  initial values of the members are set in \<open>HalProxy.h\<close>, which is not part of the repository, so
  the state of a proxy before the body of its constructor is an argument.
\<close>

section \<open>Data\<close>

text \<open>
  \<open>dlopen_path\<close> gives the handle of a library, \<open>dlsym_in\<close> the address of a symbol, and \<open>get_sub_hal\<close>
  what the function at an address stores in \<open>version\<close> and the name of the sub-HAL it returns.
\<close>

record loader_env =
  SUB_HAL_2_0_VERSION :: u32
  SUB_HAL_2_1_VERSION :: u32
  lp64 :: bool
  config_file :: "string \<Rightarrow> string option"
  dlopen_path :: "string \<Rightarrow> nat option"
  dlsym_in :: "nat \<Rightarrow> string \<Rightarrow> nat option"
  get_sub_hal :: "nat \<Rightarrow> u32 \<times> string"

section \<open>Loading the sub-HALs\<close>

definition kSubHalShareObjectLocations :: "bool \<Rightarrow> string list" where
  "kSubHalShareObjectLocations is_lp64 =
     '''' # (if is_lp64 then [''/vendor/lib64/hw/'', ''/odm/lib64/hw/''] else [''/vendor/lib/hw/'', ''/odm/lib/hw/''])"

fun open_in :: "loader_env \<Rightarrow> string \<Rightarrow> string list \<Rightarrow> nat option" where
  "open_in env filename [] = None"
| "open_in env filename (dir # dirs) =
     (case dlopen_path env (c_str (dir @ filename)) of
        Some handle \<Rightarrow> Some handle
      | None \<Rightarrow> open_in env filename dirs)"

definition getHandleForSubHalSharedObject :: "loader_env \<Rightarrow> string \<Rightarrow> nat option" where
  "getHandleForSubHalSharedObject env filename = open_in env filename (kSubHalShareObjectLocations (lp64 env))"

text \<open>One round of the loop over the names in the configuration file.\<close>

definition load_library :: "loader_env \<Rightarrow> string \<Rightarrow> sub_hal list \<Rightarrow> sub_hal list" where
  "load_library env subHalLibraryFile subHals =
     (case getHandleForSubHalSharedObject env subHalLibraryFile of
        None \<Rightarrow> subHals
      | Some handle \<Rightarrow>
          (case dlsym_in env handle ''sensorsHalGetSubHal'' of
             Some sensorsHalGetSubHal \<Rightarrow>
               let (version, subHal) = get_sub_hal env sensorsHalGetSubHal
               in if version \<noteq> SUB_HAL_2_0_VERSION env then subHals else subHals @ [SubHalWrapperV2_0 subHal]
           | None \<Rightarrow>
               (case dlsym_in env handle ''sensorsHalGetSubHal_2_1'' of
                  None \<Rightarrow> subHals
                | Some sensorsHalGetSubHal_2_1 \<Rightarrow>
                    let (version, subHal) = get_sub_hal env sensorsHalGetSubHal_2_1
                    in if version \<noteq> SUB_HAL_2_1_VERSION env then subHals
                       else subHals @ [SubHalWrapperV2_1 subHal])))"

definition initializeSubHalListFromConfigFile :: "loader_env \<Rightarrow> string \<Rightarrow> halproxy \<Rightarrow> halproxy" where
  "initializeSubHalListFromConfigFile env configFileName s =
     (case config_file env configFileName of
        None \<Rightarrow> s
      | Some content \<Rightarrow> s\<lparr>mSubHalList := fold (load_library env) (stream_words content) (mSubHalList s)\<rparr>)"

section \<open>Constructors and destructor\<close>

text \<open>\<open>reported i\<close> is what the sub-HAL at position \<open>i\<close> passes to the \<open>getSensorsList\<close> callback.\<close>

definition init_proxy :: "sensor_consts \<Rightarrow> (nat \<Rightarrow> SensorInfo list) \<Rightarrow> halproxy \<Rightarrow> halproxy" where
  "init_proxy c reported s = initializeSensorList c (map reported [0..<length (mSubHalList s)]) s"

definition kMultiHalConfigFile :: string where
  "kMultiHalConfigFile = ''/vendor/etc/sensors/hals.conf''"

definition HalProxy_from_config ::
  "sensor_consts \<Rightarrow> loader_env \<Rightarrow> (nat \<Rightarrow> SensorInfo list) \<Rightarrow> halproxy \<Rightarrow> halproxy" where
  "HalProxy_from_config c env reported s =
     init_proxy c reported (initializeSubHalListFromConfigFile env kMultiHalConfigFile s)"

definition HalProxy_2_0 ::
  "sensor_consts \<Rightarrow> string list \<Rightarrow> (nat \<Rightarrow> SensorInfo list) \<Rightarrow> halproxy \<Rightarrow> halproxy" where
  "HalProxy_2_0 c subHalList reported s =
     init_proxy c reported (s\<lparr>mSubHalList := mSubHalList s @ map SubHalWrapperV2_0 subHalList\<rparr>)"

definition HalProxy_2_1 ::
  "sensor_consts \<Rightarrow> string list \<Rightarrow> string list \<Rightarrow> (nat \<Rightarrow> SensorInfo list) \<Rightarrow> halproxy \<Rightarrow> halproxy" where
  "HalProxy_2_1 c subHalList subHalListV2_1 reported s =
     init_proxy c reported (s\<lparr>mSubHalList := mSubHalList s @ map SubHalWrapperV2_0 subHalList
                                             @ map SubHalWrapperV2_1 subHalListV2_1\<rparr>)"

definition destroy_HalProxy ::
  "sensor_consts \<Rightarrow> bool \<Rightarrow> u32 option \<Rightarrow> int \<Rightarrow> halproxy \<Rightarrow> hal_fault + halproxy" where
  "destroy_HalProxy c ok r now s = stopThreads c ok r now s"

section \<open>Debug dump\<close>

text \<open>
  What the dump does, in order. \<open>DupFd\<close> is the duplicate of the caller's descriptor: it is stored
  in a \<open>borrowed_fd\<close>, which does not close it.
\<close>

datatype debug_call = DupFd | WriteStringToFd string | SubHalDebug nat

definition getName :: "sub_hal \<Rightarrow> string" where
  "getName h = (case h of SubHalWrapperV2_0 n \<Rightarrow> n | SubHalWrapperV2_1 n \<Rightarrow> n)"

definition endl :: string where
  "endl = [CHR 0x0A]"

definition debug_header :: "int \<Rightarrow> halproxy \<Rightarrow> string" where
  "debug_header now s =
     ''===HalProxy==='' @ endl
     @ ''Internal values:'' @ endl
     @ ''  Threads are running: '' @ (if mThreadsRun s then ''true'' else ''false'') @ endl
     @ ''  Wakelock timeout start time: '' @ decimal_int (msFromNs (now - mWakelockTimeoutStartTime s))
     @ '' ms ago'' @ endl
     @ ''  Wakelock timeout reset time: '' @ decimal_int (msFromNs (now - mWakelockTimeoutResetTime s))
     @ '' ms ago'' @ endl
     @ ''  Wakelock ref count: '' @ decimal (unat (mWakelockRefCount s)) @ endl
     @ ''  # of events on pending write writes queue: '' @ decimal (unat (mSizePendingWriteEventsQueue s)) @ endl
     @ '' Most events seen on pending write events queue: ''
     @ decimal (unat (mMostEventsObservedPendingWriteEventsQueue s)) @ endl
     @ (case mPendingWriteEventsQueue s of
          [] \<Rightarrow> ''''
        | (es, _) # _ \<Rightarrow> ''  Size of events list on front of pending writes queue: '' @ decimal (length es) @ endl)
     @ ''  # of non-dynamic sensors across all subhals: '' @ decimal (length (mSensors s)) @ endl
     @ ''  # of dynamic sensors across all subhals: '' @ decimal (length (mDynamicSensors s)) @ endl
     @ ''SubHals ('' @ decimal (length (mSubHalList s)) @ ''):'' @ endl"

fun debug_subhals :: "string \<Rightarrow> nat \<Rightarrow> sub_hal list \<Rightarrow> debug_call list" where
  "debug_subhals stream i [] = [WriteStringToFd stream]"
| "debug_subhals stream i (subHal # subHals) =
     (let stream = stream @ ''  Name: '' @ getName subHal @ endl @ ''  Debug dump: '' @ endl
      in [WriteStringToFd stream, SubHalDebug i] @ debug_subhals endl (Suc i) subHals)"

text \<open>\<open>numFds\<close> is \<open>None\<close> for a null native handle.\<close>

definition debug :: "nat option \<Rightarrow> int \<Rightarrow> halproxy \<Rightarrow> debug_call list" where
  "debug numFds now s =
     (case numFds of
        None \<Rightarrow> []
      | Some n \<Rightarrow> if n < 1 then [] else DupFd # debug_subhals (debug_header now s) 0 (mSubHalList s))"

section \<open>Lemmas\<close>

text \<open>Specification of a usable library: the sub-HAL it contributes.\<close>

definition library_sub_hal :: "loader_env \<Rightarrow> string \<Rightarrow> sub_hal option" where
  "library_sub_hal env file =
     Option.bind (getHandleForSubHalSharedObject env file) (\<lambda>handle.
       case (dlsym_in env handle ''sensorsHalGetSubHal'', dlsym_in env handle ''sensorsHalGetSubHal_2_1'') of
         (Some f, _) \<Rightarrow> if fst (get_sub_hal env f) = SUB_HAL_2_0_VERSION env
                        then Some (SubHalWrapperV2_0 (snd (get_sub_hal env f))) else None
       | (None, Some f) \<Rightarrow> if fst (get_sub_hal env f) = SUB_HAL_2_1_VERSION env
                           then Some (SubHalWrapperV2_1 (snd (get_sub_hal env f))) else None
       | (None, None) \<Rightarrow> None)"

lemma load_library_spec:
  "load_library env file hs = hs @ (case library_sub_hal env file of None \<Rightarrow> [] | Some h \<Rightarrow> [h])"
  by (auto simp: load_library_def library_sub_hal_def case_prod_beta' Let_def split: option.splits)

lemma load_libraries_spec:
  "fold (load_library env) files hs = hs @ List.map_filter (library_sub_hal env) files"
  by (induction files arbitrary: hs)
    (auto simp: load_library_spec List.map_filter_def split: option.splits)

lemma ex_split_Cons:
  "(\<exists>pre y post. x # xs = pre @ y # post \<and> P y \<and> list_all Q pre) \<longleftrightarrow>
     P x \<or> Q x \<and> (\<exists>pre y post. xs = pre @ y # post \<and> P y \<and> list_all Q pre)"
    (is "?l \<longleftrightarrow> ?r")
proof
  assume ?l
  then obtain pre y post where "x # xs = pre @ y # post" "P y" "list_all Q pre" by blast
  then show ?r by (cases pre) auto
next
  assume ?r
  then show ?l
  proof
    assume "P x"
    then show ?l by (intro exI [of _ "[]"]) auto
  next
    assume "Q x \<and> (\<exists>pre y post. xs = pre @ y # post \<and> P y \<and> list_all Q pre)"
    then obtain pre y post where "xs = pre @ y # post" "P y" "list_all Q (x # pre)" by auto
    then show ?l by (intro exI [of _ "x # pre"]) auto
  qed
qed

lemma open_in_spec:
  "open_in env file dirs = Some h \<longleftrightarrow>
     (\<exists>pre dir post. dirs = pre @ dir # post \<and> dlopen_path env (c_str (dir @ file)) = Some h
        \<and> list_all (\<lambda>d. dlopen_path env (c_str (d @ file)) = None) pre)"
proof (induction dirs)
  case Nil
  then show ?case by simp
next
  case (Cons d dirs)
  show ?case
    unfolding ex_split_Cons Cons.IH [symmetric]
    by (cases "dlopen_path env (c_str (d @ file))") simp_all
qed

lemma mSubHalList_load_sensor [simp]: "mSubHalList (load_sensor c i x s) = mSubHalList s"
  by (simp add: load_sensor_def setDirectChannelFlags_def case_prod_beta' Let_def)

lemma mSubHalList_initializeSensorList [simp]:
  fixes s :: "'a halproxy_scheme"
  shows "mSubHalList (initializeSensorList c ls s) = mSubHalList s"
proof -
  have "mSubHalList (fold (load_sensor c i) xs s) = mSubHalList s" for i xs and s :: "'a halproxy_scheme"
    by (induction xs arbitrary: s) simp_all
  then have "mSubHalList (initializeSensorList_from c k ls s) = mSubHalList s" for k
    by (induction ls arbitrary: k s) simp_all
  then show ?thesis by (simp add: initializeSensorList_def)
qed

lemma mSubHalList_init_proxy [simp]: "mSubHalList (init_proxy c reported s) = mSubHalList s"
  by (simp add: init_proxy_def)

fun dumped :: "debug_call list \<Rightarrow> nat list" where
  "dumped [] = []"
| "dumped (SubHalDebug i # xs) = i # dumped xs"
| "dumped (_ # xs) = dumped xs"

lemma dumped_debug_subhals: "dumped (debug_subhals stream i hs) = [i..<i + length hs]"
  by (induction hs arbitrary: stream i) (simp_all add: upt_Suc_Cons Let_def del: upt_Suc)

section \<open>Properties\<close>


text \<open>
  The search for a library. The handle returned is that of the first of the three
  locations in which the library can be opened, so a library found in the default locations is
  never replaced by one of \<open>/vendor\<close> or \<open>/odm\<close>; without any the result is null.
\<close>

theorem library_location:
  "getHandleForSubHalSharedObject env file = Some h \<longleftrightarrow>
     (\<exists>pre dir post. kSubHalShareObjectLocations (lp64 env) = pre @ dir # post
        \<and> dlopen_path env (c_str (dir @ file)) = Some h
        \<and> list_all (\<lambda>d. dlopen_path env (c_str (d @ file)) = None) pre)"
  by (simp add: getHandleForSubHalSharedObject_def open_in_spec)

text \<open>
  The debug dump asks every sub-HAL once, in order, after writing its name, and duplicates the
  descriptor of the caller once without closing it.
\<close>

theorem debug_dumps_each_sub_hal:
  assumes "n \<ge> 1"
  shows "\<exists>ks. debug (Some n) now s = DupFd # ks \<and> DupFd \<notin> set ks
    \<and> dumped ks = [0..<length (mSubHalList s)]"
proof -
  have "DupFd \<notin> set (debug_subhals stream i hs)" for stream i hs
    by (induction hs arbitrary: stream i) (simp_all add: Let_def)
  then show ?thesis using assms dumped_debug_subhals by (simp add: debug_def)
qed

text \<open>Two libraries, one of version 2.1 and one with a wrong version.\<close>

definition loader_example :: loader_env where
  "loader_example =
     \<lparr>SUB_HAL_2_0_VERSION = 0x02000000, SUB_HAL_2_1_VERSION = 0x02010000, lp64 = True,
      config_file = (\<lambda>f. if f = kMultiHalConfigFile
                         then Some (concat (map (\<lambda>(w, c). w @ [c]) [(''a.so'', CHR 0x0A), (''b.so'', CHR '' '')])) else None),
      dlopen_path = (\<lambda>p. if p = ''/odm/lib64/hw/a.so'' then Some 1 else if p = ''b.so'' then Some 2 else None),
      dlsym_in = (\<lambda>h f. if f = ''sensorsHalGetSubHal_2_1'' then Some h else None),
      get_sub_hal = (\<lambda>a. if a = 1 then (0x02010000, ''A'') else (0x02000000, ''B''))\<rparr>"

lemma loader_example_list:
  "mSubHalList (initializeSubHalListFromConfigFile loader_example kMultiHalConfigFile s) =
     mSubHalList s @ [SubHalWrapperV2_1 ''A'']"
proof -
  have "stream_words (concat (map (\<lambda>(w, c). w @ [c]) [(''a.so'', CHR 0x0A), (''b.so'', CHR '' '')])) = [''a.so'', ''b.so'']"
    by (subst stream_words_separated) (auto simp: stream_word_def cpp_isspace_def)
  then show ?thesis
    by (simp add: initializeSubHalListFromConfigFile_def loader_example_def load_library_def
        getHandleForSubHalSharedObject_def kSubHalShareObjectLocations_def c_str_def)
qed


theorem debug_dumps_each_sub_hal_witness:
  "\<exists>ks. debug (Some 1) 5 example_proxy = DupFd # ks \<and> dumped ks = [0..<length (mSubHalList example_proxy)]"
  using debug_dumps_each_sub_hal [of 1 5 example_proxy] by auto

end
