(* ===== verification/Hal_Threads.thy ===== *)
theory Hal_Threads
  imports Hal_Loader
begin

text \<open>
  The sensors proxy of \<open>src/sensors\<close> with all its actors: requests of the framework,
  sub-HALs that post events, connect sensors and hold scoped wake locks, the two threads, and
  (re-)initialisations, from the constructor on. Threads that sleep on a condition variable, the
  notifications that wake them, the mutexes and a post that has passed its check of \<open>areThreadsRunning\<close> are part of the
  state. \<open>Hal_Session\<close> proves what holds in every state that they reach.
\<close>

section \<open>The state machine\<close>

text \<open>
  Where a thread is in \<open>wait(lock, predicate)\<close>: it runs (and will test the predicate); it has tested the predicate in
  vain and still holds its mutex; it has given up the mutex and sleeps.
\<close>

datatype cv_state = Running | Tested | Blocked

text \<open>
  \<open>posting\<close> holds the calls of \<open>postEvents\<close> that are about to enter \<open>postEventsToMessageQueue\<close>, with the number of wake-up events, the
  processed events and whether the wake lock is held; \<open>stopping\<close> says that an initialisation waits in one of
  the joins of \<open>stopThreads\<close>. The framework makes one initialisation at a time.
\<close>

record session =
  proxy :: halproxy
  writer_cv :: cv_state
  wakelock_cv :: cv_state
  posting :: "(size_t \<times> Event list \<times> bool) list"
  stopping :: bool

definition notify_one :: "cv_state \<Rightarrow> cv_state" where
  "notify_one cv = (if cv = Blocked then Running else cv)"

definition new_calls :: "'a list \<Rightarrow> 'a list \<Rightarrow> 'a list" where
  "new_calls before after = drop (length before) after"

text \<open>The proxy goes on to state \<open>t\<close>; the notifications made on the way reach the threads that sleep.\<close>

definition proceed :: "halproxy \<Rightarrow> session \<Rightarrow> session" where
  "proceed t S = S\<lparr>proxy := t,
     writer_cv := (if NotifyPendingWrites \<in> set (new_calls (queue_calls (proxy S)) (queue_calls t))
                   then notify_one (writer_cv S) else writer_cv S),
     wakelock_cv := (if NotifyWakelockThread \<in> set (new_calls (wake_calls (proxy S)) (wake_calls t))
                     then notify_one (wakelock_cv S) else wakelock_cv S)\<rparr>"

text \<open>
  A thread that has tested its predicate holds its mutex. The wake lock operations do not lock
  \<open>mWakelockMutex\<close> when the threads do not run.
\<close>

definition write_mutex_free :: "session \<Rightarrow> bool" where
  "write_mutex_free S \<longleftrightarrow> writer_cv S \<noteq> Tested"

definition wakelock_mutex_free :: "session \<Rightarrow> bool" where
  "wakelock_mutex_free S \<longleftrightarrow> wakelock_cv S \<noteq> Tested \<or> \<not> mThreadsRun (proxy S)"

definition writer_gone :: "halproxy \<Rightarrow> bool" where
  "writer_gone s \<longleftrightarrow> mPendingWritesThread s \<in> {None, Some WrExited}"

definition wakelock_gone :: "halproxy \<Rightarrow> bool" where
  "wakelock_gone s \<longleftrightarrow> mWakelockThread s \<in> {None, Some WlExited}"

inductive proxy_request :: "sensor_consts \<Rightarrow> subhal_env \<Rightarrow> halproxy \<Rightarrow> halproxy \<Rightarrow> bool"
  for c :: sensor_consts and env :: subhal_env
  where
    activate: "proxy_request c env s (snd (activate c env h enabled s))"
  | batch: "proxy_request c env s (snd (batch c env h samplingPeriodNs maxReportLatencyNs s))"
  | flush: "proxy_request c env s (snd (flush c env h s))"
  | inject: "proxy_request c env s (snd (injectSensorData c convert env event s))"
  | operation_mode: "proxy_request c env s (snd (setOperationMode env mode s))"
  | register: "proxy_request c env s (snd (registerDirectChannel env mem s))"
  | unregister: "proxy_request c env s (snd (unregisterDirectChannel env channel s))"
  | configure: "proxy_request c env s (snd (configDirectReport c env h channel rate s))"
  | connected: "proxy_request c env s (fst (onDynamicSensorsConnected c added i s))"
  | disconnected: "proxy_request c env s (fst (onDynamicSensorsDisconnected c removed i s))"

text \<open>The steps of the two threads.\<close>

inductive thread_step :: "sensor_consts \<Rightarrow> session \<Rightarrow> session \<Rightarrow> bool"
  for c :: sensor_consts
  where
    writer_test: "thread_step c S (S\<lparr>writer_cv := Tested\<rparr>)"
      if "mPendingWritesThread (proxy S) = Some WrWait" and "writer_cv S = Running"
        and "\<not> handlePendingWrites_awake (proxy S)"
  | writer_block: "thread_step c S (S\<lparr>writer_cv := Blocked\<rparr>)"
      if "writer_cv S = Tested"
  | writer_head: "thread_step c S (S\<lparr>proxy := (proxy S)\<lparr>mPendingWritesThread := Some pc\<rparr>\<rparr>)"
      if "mPendingWritesThread (proxy S) = Some WrWait" and "writer_cv S = Running"
        and "handlePendingWrites_awake (proxy S)" and "handlePendingWrites_head (proxy S) = Inr pc"
  | writer_write: "thread_step c S (proceed (t\<lparr>mPendingWritesThread := Some (WrWritten n q)\<rparr>) S)"
      if "mPendingWritesThread (proxy S) = Some (WrWriting n w q)" and "ok \<or> wakelock_mutex_free S"
        and "handlePendingWrites_write c ok n w q (proxy S) = Inr t"
  | writer_pop: "thread_step c S (S\<lparr>proxy := t\<lparr>mPendingWritesThread := Some WrWait\<rparr>\<rparr>)"
      if "mPendingWritesThread (proxy S) = Some (WrWritten n q)" and "handlePendingWrites_pop n q (proxy S) = Inr t"
  | wakelock_test: "thread_step c S (S\<lparr>wakelock_cv := Tested\<rparr>)"
      if "mWakelockThread (proxy S) = Some WlHead" and "wakelock_cv S = Running"
        and "\<not> handleWakelocks_awake (proxy S)"
  | wakelock_block: "thread_step c S (S\<lparr>wakelock_cv := Blocked\<rparr>)"
      if "wakelock_cv S = Tested"
  | wakelock_head: "thread_step c S (S\<lparr>proxy := t\<lparr>mWakelockThread := Some wpc\<rparr>\<rparr>)"
      if "mWakelockThread (proxy S) = Some WlHead" and "wakelock_cv S = Running"
        and "handleWakelocks_awake (proxy S)" and "handleWakelocks_head c now now' (proxy S) = (wpc, t)"
  | wakelock_read: "thread_step c S (S\<lparr>proxy := t\<lparr>mWakelockThread := Some wpc\<rparr>\<rparr>)"
      if "mWakelockThread (proxy S) = Some (WlReading left)" and "handleWakelocks_read r (proxy S) = (wpc, t)"

inductive session_step :: "sensor_consts \<Rightarrow> subhal_env \<Rightarrow> session \<Rightarrow> session \<Rightarrow> bool"
  for c :: sensor_consts and env :: subhal_env
  where
    request: "session_step c env S (S\<lparr>proxy := t\<rparr>)"
      if "proxy_request c env (proxy S) t"
  | post_begin: "session_step c env S (S\<lparr>posting := posting S @ [(n, ys, locked)]\<rparr>)"
      if "batch_fits c es"
        and "postEvents_prepare c asserts (mThreadsRun (proxy S)) info i es locked = Inr (Some (n, ys))"
  | post_end: "session_step c env S (proceed t (S\<lparr>posting := remove1 (n, ys, locked) (posting S)\<rparr>))"
      if "(n, ys, locked) \<in> set (posting S)" and "write_mutex_free S" and "\<not> locked \<or> wakelock_mutex_free S"
        and "postEventsToMessageQueue c now avail ok ys n locked (proxy S) = Inr t"
  | scoped_lock: "session_step c env S (proceed (snd (incrementRefCountAndMaybeAcquireWakelock now 1 (proxy S))) S)"
      if "wakelock_mutex_free S"
  | scoped_unlock: "session_step c env S (proceed (decrementRefCountAndMaybeReleaseWakelock 1 start (proxy S)) S)"
      if "wakelock_mutex_free S"
  | thread: "session_step c env S T"
      if "thread_step c S T"
  | init_begin: "session_step c env S ((proceed (stopThreads_signal (proxy S)) S)\<lparr>stopping := True\<rparr>)"
      if "\<not> stopping S"
  | init_end: "session_step c env S (S\<lparr>proxy := t, writer_cv := Running, wakelock_cv := Running, stopping := False\<rparr>)"
      if "stopping S" and "writer_gone (proxy S)" and "wakelock_gone (proxy S)"
        and "initializeCommon_rest c env now' quantum event_flag wakelock_flag True
               ((proxy S)\<lparr>mPendingWritesThread := None, mWakelockThread := None\<rparr>) = (res, t)"

text \<open>A condition variable may also wake up a thread for no reason.\<close>

inductive spurious_wakeup :: "session \<Rightarrow> session \<Rightarrow> bool" where
  "writer_cv S = Blocked \<Longrightarrow> spurious_wakeup S (S\<lparr>writer_cv := Running\<rparr>)"
| "wakelock_cv S = Blocked \<Longrightarrow> spurious_wakeup S (S\<lparr>wakelock_cv := Running\<rparr>)"

definition any_step :: "sensor_consts \<Rightarrow> subhal_env \<Rightarrow> session \<Rightarrow> session \<Rightarrow> bool" where
  "any_step c env S T \<longleftrightarrow> session_step c env S T \<or> spurious_wakeup S T"

text \<open>The members before the body of a constructor runs.\<close>

definition blank_proxy :: "halproxy \<Rightarrow> bool" where
  "blank_proxy s \<longleftrightarrow>
     mSubHalList s = [] \<and> mSensors s = [] \<and> mDynamicSensors s = [] \<and> mDirectChannelSubHal s = None
     \<and> mPendingWriteEventsQueue s = [] \<and> mSizePendingWriteEventsQueue s = 0
     \<and> mMostEventsObservedPendingWriteEventsQueue s = 0
     \<and> \<not> mThreadsRun s \<and> mPendingWritesThread s = None \<and> mWakelockThread s = None"

definition session_init :: "sensor_consts \<Rightarrow> session \<Rightarrow> bool" where
  "session_init c S \<longleftrightarrow>
     (\<exists>lenv sensors_of s0. blank_proxy s0 \<and>
        S = \<lparr>proxy = HalProxy_from_config c lenv sensors_of s0, writer_cv = Running, wakelock_cv = Running,
             posting = [], stopping = False\<rparr>)"

definition proxy_inv :: "sensor_consts \<Rightarrow> halproxy \<Rightarrow> bool" where
  "proxy_inv c s \<longleftrightarrow>
     queue_inv c s
     \<and> (\<forall>pc. mPendingWritesThread s = Some pc \<longrightarrow> writer_ok pc s)
     \<and> (mThreadsRun s \<longrightarrow> mEventQueue s \<noteq> None \<and> \<not> writer_gone s \<and> \<not> wakelock_gone s)
     \<and> smap_ok (mSensors s) \<and> smap_ok (mDynamicSensors s)
     \<and> (\<forall>i. mDirectChannelSubHal s = Some i \<longrightarrow> i < length (mSubHalList s))"

section \<open>Operations that leave the queue alone\<close>

definition same_proxy :: "halproxy \<Rightarrow> halproxy \<Rightarrow> bool" where
  "same_proxy s t \<longleftrightarrow>
     same_queue s t \<and> mPendingWritesThread t = mPendingWritesThread s
     \<and> mWakelockThread t = mWakelockThread s
     \<and> mSubHalList t = mSubHalList s \<and> mDirectChannelSubHal t = mDirectChannelSubHal s
     \<and> (smap_ok (mSensors s) \<longrightarrow> smap_ok (mSensors t))
     \<and> (smap_ok (mDynamicSensors s) \<longrightarrow> smap_ok (mDynamicSensors t))"

lemma same_proxy_refl [simp]: "same_proxy s s"
  by (simp add: same_proxy_def)

lemma same_proxy_trans: "same_proxy s t \<Longrightarrow> same_proxy t u \<Longrightarrow> same_proxy s u"
  by (auto simp: same_proxy_def intro: same_queue_trans)

lemma same_proxy_inv:
  assumes "same_proxy s t" "proxy_inv c s"
  shows "proxy_inv c t"
proof -
  have q: "same_queue s t" using assms(1) by (simp add: same_proxy_def)
  show ?thesis
    using assms same_queue_inv [OF q] same_queue_writer [OF q] q
    by (auto simp: proxy_inv_def same_proxy_def writer_gone_def wakelock_gone_def) (auto simp: same_queue_def)
qed

lemma same_proxy_calls [simp]: "same_proxy s (s\<lparr>subhal_calls := xs\<rparr>)"
  by (simp add: same_proxy_def same_queue_def)

lemma same_proxy_call_subhal [simp]: "same_proxy s (snd (call_subhal env i x s))"
  by (simp add: call_subhal_def)

lemma same_proxy_requests:
  "same_proxy s (snd (activate c env h enabled s))"
  "same_proxy s (snd (batch c env h p l s))"
  "same_proxy s (snd (flush c env h s))"
  "same_proxy s (snd (injectSensorData c convert env event s))"
  "same_proxy s (snd (registerDirectChannel env mem s))"
  "same_proxy s (snd (unregisterDirectChannel env channel s))"
  "same_proxy s (snd (configDirectReport c env h channel rate s))"
  by (simp_all add: activate_def batch_def flush_def injectSensorData_def registerDirectChannel_def
      unregisterDirectChannel_def configDirectReport_def Let_def split: option.split)

lemma same_proxy_mode: "same_proxy s (snd (setOperationMode env mode s))"
proof -
  obtain r j t where l: "setOperationMode_loop env mode (length (mSubHalList s)) 0 s = (r, j, t)"
    by (metis prod_cases3)
  have t: "same_proxy s t" using set_mode_loop [OF l] by auto
  have "same_proxy u (reset_modes env j u)" for u by (simp add: reset_modes_eq)
  moreover have "same_proxy t (t\<lparr>mCurrentOperationMode := mode\<rparr>)"
    by (simp add: same_proxy_def same_queue_def)
  ultimately show ?thesis
    using t by (auto simp: setOperationMode_def l intro: same_proxy_trans)
qed

lemma same_proxy_connected: "same_proxy s (fst (onDynamicSensorsConnected c added i s))"
proof (induction added arbitrary: s)
  case (Cons x added)
  let ?x = "x\<lparr>sensorHandle := setSubHalIndex (sensorHandle x) (scast i)\<rparr>"
  let ?s = "s\<lparr>mDynamicSensors := smap_assign (sint (sensorHandle ?x)) ?x (mDynamicSensors s)\<rparr>"
  have "same_proxy s ?s" by (simp add: same_proxy_def same_queue_def smap_ok_assign)
  with Cons [of s] Cons [of ?s] show ?case
    by (auto simp: Let_def case_prod_beta' intro: same_proxy_trans)
qed simp

lemma same_proxy_disconnected: "same_proxy s (fst (onDynamicSensorsDisconnected c removed i s))"
proof (induction removed arbitrary: s)
  case (Cons h removed)
  let ?s = "s\<lparr>mDynamicSensors := smap_erase (sint (setSubHalIndex h (scast i))) (mDynamicSensors s)\<rparr>"
  have "same_proxy s ?s" by (simp add: same_proxy_def same_queue_def smap_ok_erase)
  with Cons [of s] Cons [of ?s] show ?case
    by (auto simp: Let_def case_prod_beta' intro: same_proxy_trans)
qed simp

lemma same_proxy_wakelock:
  "same_proxy s (snd (incrementRefCountAndMaybeAcquireWakelock now d s))"
  "same_proxy s (decrementRefCountAndMaybeReleaseWakelock d start s)"
  "same_proxy s (resetSharedWakelock now s)"
  by (simp_all add: same_proxy_def) (simp_all add: wakelock_defs)

lemma same_proxy_wakelock_thread:
  "handleWakelocks_head c now now' s = (wpc, t) \<Longrightarrow> same_proxy s t"
  "handleWakelocks_read r s = (wpc, t) \<Longrightarrow> same_proxy s t"
  by (auto simp: handleWakelocks_head_def handleWakelocks_read_def same_proxy_wakelock split: if_splits option.splits)

lemma same_proxy_index: "same_proxy s (snd (mSensors_index h s))"
  by (simp add: mSensors_index_def same_proxy_def same_queue_def smap_ok_assign split: option.split)

lemma same_proxy_count: "same_proxy s (snd (countNumWakeupEvents_loop c es n s))"
proof (induction es arbitrary: n s)
  case (Cons e es)
  show ?case
    using same_proxy_trans [OF same_proxy_index Cons]
    by (auto simp: case_prod_beta' Let_def)
qed simp

lemma same_proxy_drop_failed: "drop_failed_write c es w q s = Inr t \<Longrightarrow> same_proxy s t"
  using same_proxy_count same_proxy_wakelock(2)
  by (auto simp: drop_failed_write_def countNumWakeupEvents_def split: if_splits sum.splits prod.splits)
    (metis same_proxy_trans snd_conv)+

section \<open>Operations on the queue\<close>

text \<open>The members that posting and writing do not touch.\<close>

definition same_threads :: "halproxy \<Rightarrow> halproxy \<Rightarrow> bool" where
  "same_threads s t \<longleftrightarrow>
     mThreadsRun t = mThreadsRun s \<and> mEventQueue t = mEventQueue s
     \<and> mPendingWritesThread t = mPendingWritesThread s
     \<and> mWakelockThread t = mWakelockThread s
     \<and> mSubHalList t = mSubHalList s \<and> mDirectChannelSubHal t = mDirectChannelSubHal s
     \<and> (smap_ok (mSensors s) \<longrightarrow> smap_ok (mSensors t))
     \<and> (smap_ok (mDynamicSensors s) \<longrightarrow> smap_ok (mDynamicSensors t))"

lemma same_proxy_threads: "same_proxy s t \<Longrightarrow> same_threads s t"
  by (simp add: same_proxy_def same_threads_def same_queue_def)

lemma same_threads_post:
  "postEventsToMessageQueue c now avail ok es w locked s = Inr t \<Longrightarrow> same_threads s t"
  by (auto simp: same_threads_def postEventsToMessageQueue_def post_left_def Let_def
      incrementRefCountAndMaybeAcquireWakelock_def split: if_splits)

lemma proxy_inv_post:
  assumes inv: "proxy_inv c s" and fits: "batch_fits c es"
    and post: "postEventsToMessageQueue c now avail ok es w locked s = Inr t"
  shows "proxy_inv c t"
proof -
  have qi: "queue_inv c s" using inv by (simp add: proxy_inv_def)
  have "queue_inv c t" by (rule post_effect [OF qi fits post])
  with inv same_threads_post [OF post] post_writer_ok [OF post] show ?thesis
    by (auto simp: proxy_inv_def same_threads_def writer_gone_def wakelock_gone_def)
qed

lemma processed_shorter: "length (snd (processEvents c info i es)) \<le> length es"
  by (simp add: processEvents_eq Let_def le_trans [OF length_filter_le])

lemma prepared_fits:
  assumes "batch_fits c es" and "postEvents_prepare c asserts running info i es locked = Inr (Some (n, ys))"
  shows "batch_fits c ys" and "running"
  using assms processed_shorter [of c info i es]
  by (auto simp: postEvents_prepare_def batch_fits_def split: if_splits prod.splits)

lemma same_threads_write:
  assumes "handlePendingWrites_write c ok n w q s = Inr t"
  shows "same_threads s t"
proof -
  obtain es wb rest where f: "mPendingWriteEventsQueue s = (es, wb) # rest"
    using assms by (auto simp: handlePendingWrites_write_def split: list.splits)
  show ?thesis
  proof (cases ok)
    case True
    then show ?thesis using assms f by (auto simp: handlePendingWrites_write_def same_threads_def)
  next
    case False
    with assms f have "drop_failed_write c es w q s = Inr t" by (simp add: handlePendingWrites_write_def)
    then show ?thesis by (intro same_proxy_threads same_proxy_drop_failed)
  qed
qed

lemma same_threads_pop: "handlePendingWrites_pop n q s = Inr t \<Longrightarrow> same_threads s t"
  by (auto simp: handlePendingWrites_pop_def same_threads_def Let_def split: list.splits)

text \<open>The threads get a new position; the writer does not exit while it has work.\<close>

lemma proxy_inv_writer_pc:
  assumes "proxy_inv c s" "same_threads s t" "queue_inv c t" "writer_ok pc t" "\<not> mThreadsRun s \<or> pc \<noteq> WrExited"
  shows "proxy_inv c (t\<lparr>mPendingWritesThread := Some pc\<rparr>)"
proof -
  have "writer_ok p (t\<lparr>mPendingWritesThread := Some pc\<rparr>) = writer_ok p t" for p by (cases p) auto
  then show ?thesis using assms
    by (auto simp: proxy_inv_def same_threads_def queue_inv_def pending_events_def writer_gone_def wakelock_gone_def)
qed

lemma proxy_inv_wakelock_pc:
  assumes "proxy_inv c s" "same_proxy s t" "\<not> mThreadsRun s \<or> wpc \<noteq> WlExited"
  shows "proxy_inv c (t\<lparr>mWakelockThread := Some wpc\<rparr>)"
proof -
  have "writer_ok pc (t\<lparr>mWakelockThread := Some wpc\<rparr>) = writer_ok pc t" for pc by (cases pc) auto
  then show ?thesis using same_proxy_inv [OF assms(2,1)] same_proxy_threads [OF assms(2)] assms(3)
    by (auto simp: proxy_inv_def queue_inv_def pending_events_def writer_gone_def wakelock_gone_def same_threads_def)
qed

section \<open>Stopping and starting\<close>

lemma stop_signal_frame:
  "mPendingWritesThread (stopThreads_signal s) = mPendingWritesThread s"
  "mWakelockThread (stopThreads_signal s) = mWakelockThread s"
  "mEventQueue (stopThreads_signal s) = mEventQueue s"
  "mPendingWriteEventsQueue (stopThreads_signal s) = mPendingWriteEventsQueue s"
  "\<not> mThreadsRun (stopThreads_signal s)"
  by (simp_all add: stopThreads_signal_def Let_def)

lemma proxy_inv_stop_signal: "proxy_inv c s \<Longrightarrow> proxy_inv c (stopThreads_signal s)"
proof -
  assume inv: "proxy_inv c s"
  have "writer_ok pc (stopThreads_signal s) = writer_ok pc s" for pc
    by (cases pc) (simp_all add: stopThreads_signal_def Let_def)
  with inv show ?thesis
    by (auto simp: proxy_inv_def queue_inv_def pending_events_def stopThreads_signal_def Let_def)
qed

lemma stop_signal_notifies:
  "NotifyPendingWrites \<in> set (new_calls (queue_calls s) (queue_calls (stopThreads_signal s)))"
  "NotifyWakelockThread \<in> set (new_calls (wake_calls s) (wake_calls (stopThreads_signal s)))"
  by (simp_all add: new_calls_def stopThreads_signal_def Let_def)

lemma proxy_inv_initialize_rest:
  assumes inv: "proxy_inv c s" and stop: "\<not> mThreadsRun s"
    and init: "initializeCommon_rest c env now' quantum ef wfl cb
      (s\<lparr>mPendingWritesThread := None, mWakelockThread := None\<rparr>) = (res, t)"
  shows "proxy_inv c t" and "mThreadsRun t" and "mEventQueue t = Some quantum" and "mEventQueueFlag t = ef"
    and "mPendingWritesThread t = Some WrWait" and "mWakelockThread t = Some WlHead"
proof -
  let ?s = "s\<lparr>mPendingWritesThread := None, mWakelockThread := None\<rparr>"
  have "\<not> mThreadsRun ?s" using stop by simp
  from initialize_rest_shape [OF init this] obtain calls where
    t: "t = initialized ?s now' quantum ef wfl cb\<lparr>subhal_calls := calls\<rparr>" by blast
  show "proxy_inv c t"
    using inv by (auto simp: t initialized_def proxy_inv_def queue_inv_def pending_events_def writer_gone_def wakelock_gone_def)
  show "mThreadsRun t" "mEventQueue t = Some quantum" "mEventQueueFlag t = ef" "mPendingWritesThread t = Some WrWait"
    "mWakelockThread t = Some WlHead"
    by (simp_all add: t initialized_def)
qed

section \<open>Construction\<close>

lemma load_sensor_frame:
  "smap_ok (mSensors s) \<Longrightarrow> smap_ok (mSensors (load_sensor c i x s))"
  by (simp add: load_sensor_def case_prod_beta' Let_def smap_ok_assign)

lemma load_sensor_direct_index:
  "mDirectChannelSubHal (load_sensor c i x s) = Some j \<Longrightarrow> mDirectChannelSubHal s = Some j \<or> j = i"
  by (auto simp: load_sensor_def setDirectChannelFlags_def case_prod_beta' Let_def split: if_splits)

definition same_rest :: "halproxy \<Rightarrow> halproxy \<Rightarrow> bool" where
  "same_rest s t \<longleftrightarrow> same_queue s t \<and> mPendingWritesThread t = mPendingWritesThread s
     \<and> mWakelockThread t = mWakelockThread s \<and> mDynamicSensors t = mDynamicSensors s
     \<and> mSubHalList t = mSubHalList s"

lemma same_rest_load: "same_rest s (load_sensor c i x s)"
  by (simp add: same_rest_def same_queue_def load_sensor_def case_prod_beta' Let_def)

lemma fold_load:
  "same_rest s (fold (load_sensor c i) xs s)
   \<and> (smap_ok (mSensors s) \<longrightarrow> smap_ok (mSensors (fold (load_sensor c i) xs s)))
   \<and> (\<forall>j. mDirectChannelSubHal (fold (load_sensor c i) xs s) = Some j \<longrightarrow> mDirectChannelSubHal s = Some j \<or> j = i)"
proof (induction xs arbitrary: s)
  case (Cons x xs)
  have "same_rest s (load_sensor c i x s)" by (rule same_rest_load)
  with Cons [of "load_sensor c i x s"] load_sensor_frame [of s c i x] load_sensor_direct_index [of c i x s]
  show ?case by (auto simp: same_rest_def intro: same_queue_trans)
qed (simp add: same_rest_def)

lemma initializeSensorList_from_frame:
  "same_rest s (initializeSensorList_from c k ls s)
   \<and> (smap_ok (mSensors s) \<longrightarrow> smap_ok (mSensors (initializeSensorList_from c k ls s)))
   \<and> (\<forall>j. mDirectChannelSubHal (initializeSensorList_from c k ls s) = Some j \<longrightarrow>
        mDirectChannelSubHal s = Some j \<or> j < k + length ls)"
proof (induction ls arbitrary: k s)
  case (Cons l ls)
  let ?s = "fold (load_sensor c k) l s"
  show ?case using fold_load [of s c k l] Cons [of ?s "Suc k"]
    by (auto simp: same_rest_def intro: same_queue_trans)
qed (simp add: same_rest_def)

lemma proxy_inv_constructed:
  assumes "blank_proxy s0"
  shows "proxy_inv c (HalProxy_from_config c lenv sensors_of s0)"
proof -
  define s1 where "s1 = initializeSubHalListFromConfigFile lenv kMultiHalConfigFile s0"
  have s1: "blank_proxy (s1\<lparr>mSubHalList := []\<rparr>)"
    using assms by (simp add: s1_def blank_proxy_def initializeSubHalListFromConfigFile_def split: option.split)
  have "HalProxy_from_config c lenv sensors_of s0
      = initializeSensorList_from c 0 (map sensors_of [0..<length (mSubHalList s1)]) s1"
    by (simp add: s1_def HalProxy_from_config_def init_proxy_def initializeSensorList_def)
  with initializeSensorList_from_frame [of s1 c 0 "map sensors_of [0..<length (mSubHalList s1)]"] s1
  show ?thesis
    by (auto simp: proxy_inv_def same_rest_def same_queue_def blank_proxy_def queue_inv_def pending_events_def)
qed

end
