(* ===== verification/Hal_Session.thy ===== *)
theory Hal_Session
  imports Hal_Threads
begin

text \<open>
  The sensors proxy of \<open>src/sensors\<close> over its whole life. The invariant of the state machine of \<open>Hal_Threads\<close> joins
  those of the sensor list, the event queue and the threads; it shows that the threads never fault and that no
  wake-up is lost while the proxy runs. When the threads are to stop, a notification that they see is enough; but
  it can come too early to be seen.
\<close>

section \<open>The invariant\<close>

definition session_inv :: "sensor_consts \<Rightarrow> session \<Rightarrow> bool" where
  "session_inv c S \<longleftrightarrow>
     proxy_inv c (proxy S)
     \<and> (writer_cv S \<noteq> Running \<longrightarrow> mPendingWritesThread (proxy S) = Some WrWait)
     \<and> (wakelock_cv S \<noteq> Running \<longrightarrow> mWakelockThread (proxy S) = Some WlHead)
     \<and> (mThreadsRun (proxy S) \<longrightarrow> \<not> stopping S
          \<and> (writer_cv S \<noteq> Running \<longrightarrow> mPendingWriteEventsQueue (proxy S) = [])
          \<and> (wakelock_cv S \<noteq> Running \<longrightarrow> mWakelockRefCount (proxy S) = 0))
     \<and> (posting S \<noteq> [] \<longrightarrow> mEventQueue (proxy S) \<noteq> None)
     \<and> (\<forall>(n, ys, locked) \<in> set (posting S). batch_fits c ys)"

text \<open>
  A step of the proxy keeps the invariant if it notifies whoever waits for what it adds. \<open>quiet_writer\<close> and
  \<open>quiet_wakelock\<close> say so for the two condition variables.
\<close>

definition quiet_writer :: "halproxy \<Rightarrow> halproxy \<Rightarrow> bool" where
  "quiet_writer s t \<longleftrightarrow> (mPendingWriteEventsQueue s = [] \<longrightarrow> mPendingWriteEventsQueue t = []
     \<or> NotifyPendingWrites \<in> set (new_calls (queue_calls s) (queue_calls t)))"

definition quiet_wakelock :: "halproxy \<Rightarrow> halproxy \<Rightarrow> bool" where
  "quiet_wakelock s t \<longleftrightarrow> (mWakelockRefCount s = 0 \<longrightarrow> mWakelockRefCount t = 0
     \<or> NotifyWakelockThread \<in> set (new_calls (wake_calls s) (wake_calls t)))"

lemma post_notifies:
  assumes "postEventsToMessageQueue c now avail ok es w locked s = Inr t"
  shows "quiet_writer s t"
  using assms
  by (auto simp: quiet_writer_def postEventsToMessageQueue_def post_left_def Let_def queue_simps new_calls_def
      split: if_splits)

lemma inc_notifies: "quiet_wakelock s (snd (incrementRefCountAndMaybeAcquireWakelock now d s))"
  by (simp add: quiet_wakelock_def wakelock_defs new_calls_def)

lemma dec_quiet: "quiet_wakelock s (decrementRefCountAndMaybeReleaseWakelock d start s)"
  by (simp add: quiet_wakelock_def wakelock_defs)

lemma post_wakelock:
  fixes s :: halproxy
  assumes "postEventsToMessageQueue c now avail ok es w locked s = Inr t"
  shows "quiet_wakelock s t"
proof -
  let ?s = "if locked then snd (incrementRefCountAndMaybeAcquireWakelock now w s) else s"
  have "mWakelockRefCount t = mWakelockRefCount ?s" "wake_calls t = wake_calls ?s"
    using assms by (auto simp: postEventsToMessageQueue_def post_left_def Let_def queue_simps split: if_splits)
  with inc_notifies [of s now w] show ?thesis by (auto simp: quiet_wakelock_def)
qed

lemma drop_failed_wakelock:
  fixes s :: halproxy
  assumes "drop_failed_write c es w q s = Inr t" "mWakelockRefCount s = 0"
  shows "mWakelockRefCount t = 0"
proof -
  obtain n m where "countNumWakeupEvents_loop c (take (unat q) es) 0 s = (n, s\<lparr>mSensors := m\<rparr>)"
    using count_loop_frame [of c "take (unat q) es" 0 s] by (metis prod.collapse)
  with assms show ?thesis
    by (auto simp: drop_failed_write_def countNumWakeupEvents_def wakelock_defs split: if_splits)
qed

lemma write_quiet:
  assumes "handlePendingWrites_write c ok n w q s = Inr t"
  shows "quiet_wakelock s t"
  using assms drop_failed_wakelock
  by (auto simp: quiet_wakelock_def handlePendingWrites_write_def split: list.splits if_splits)

lemma proceed_simps [simp]:
  "proxy (proceed t S) = t" "posting (proceed t S) = posting S" "stopping (proceed t S) = stopping S"
  by (simp_all add: proceed_def)

lemma proceed_writer:
  assumes "writer_cv (proceed t S) \<noteq> Running" and "quiet_writer (proxy S) t"
    and "mPendingWriteEventsQueue t \<noteq> mPendingWriteEventsQueue (proxy S) \<Longrightarrow> write_mutex_free S"
  shows "writer_cv S \<noteq> Running"
    and "mPendingWriteEventsQueue (proxy S) = [] \<Longrightarrow> mPendingWriteEventsQueue t = []"
  using assms by (auto simp: proceed_def notify_one_def quiet_writer_def write_mutex_free_def split: if_splits)
    (metis cv_state.exhaust)

lemma proceed_wakelock:
  assumes "wakelock_cv (proceed t S) \<noteq> Running" and "quiet_wakelock (proxy S) t" and "mThreadsRun (proxy S)"
    and "mWakelockRefCount t \<noteq> mWakelockRefCount (proxy S) \<Longrightarrow> wakelock_mutex_free S"
  shows "wakelock_cv S \<noteq> Running"
    and "mWakelockRefCount (proxy S) = 0 \<Longrightarrow> mWakelockRefCount t = 0"
  using assms by (auto simp: proceed_def notify_one_def quiet_wakelock_def wakelock_mutex_free_def split: if_splits)
    (metis cv_state.exhaust)

lemma proceed_waits:
  "writer_cv (proceed t S) \<noteq> Running \<Longrightarrow> writer_cv S \<noteq> Running"
  "wakelock_cv (proceed t S) \<noteq> Running \<Longrightarrow> wakelock_cv S \<noteq> Running"
  by (auto simp: proceed_def notify_one_def split: if_splits)

text \<open>A thread that waits stays where it is.\<close>

definition keeps_waits :: "session \<Rightarrow> halproxy \<Rightarrow> bool" where
  "keeps_waits S t \<longleftrightarrow> mThreadsRun t = mThreadsRun (proxy S) \<and> mEventQueue t = mEventQueue (proxy S)
     \<and> (writer_cv S \<noteq> Running \<longrightarrow> mPendingWritesThread t = mPendingWritesThread (proxy S))
     \<and> (wakelock_cv S \<noteq> Running \<longrightarrow> mWakelockThread t = mWakelockThread (proxy S))"

lemma same_threads_waits: "same_threads (proxy S) t \<Longrightarrow> keeps_waits S t"
  by (simp add: same_threads_def keeps_waits_def)

lemma session_inv_proceed:
  assumes inv: "session_inv c S" and t: "proxy_inv c t" "keeps_waits S t"
    and w: "quiet_writer (proxy S) t" "mPendingWriteEventsQueue t \<noteq> mPendingWriteEventsQueue (proxy S) \<Longrightarrow> write_mutex_free S"
    and k: "quiet_wakelock (proxy S) t" "mWakelockRefCount t \<noteq> mWakelockRefCount (proxy S) \<Longrightarrow> wakelock_mutex_free S"
  shows "session_inv c (proceed t S)"
proof -
  have "mPendingWriteEventsQueue t = []" if "mThreadsRun t" "writer_cv (proceed t S) \<noteq> Running"
    using proceed_writer [OF that(2) w] inv t(2) that by (simp add: session_inv_def keeps_waits_def)
  moreover have "mWakelockRefCount t = 0" if "mThreadsRun t" "wakelock_cv (proceed t S) \<noteq> Running"
    using proceed_wakelock [OF that(2) k(1) _ k(2)] inv t(2) that by (simp add: session_inv_def keeps_waits_def)
  ultimately show ?thesis
    using inv t by (auto simp: session_inv_def keeps_waits_def dest: proceed_waits)
qed

lemma session_inv_posting:
  assumes "session_inv c S"
  shows "session_inv c (S\<lparr>posting := remove1 x (posting S)\<rparr>)"
  using assms set_remove1_subset [of x "posting S"] by (auto simp: session_inv_def)

lemma session_inv_request:
  assumes "session_inv c S" "same_proxy (proxy S) t" "mWakelockRefCount t = mWakelockRefCount (proxy S)"
  shows "session_inv c (S\<lparr>proxy := t\<rparr>)"
  using assms same_proxy_inv [OF assms(2)] by (auto simp: session_inv_def same_proxy_def same_queue_def)

lemma dynamic_count:
  "mWakelockRefCount (fst (onDynamicSensorsConnected c added i s)) = mWakelockRefCount s"
  "mWakelockRefCount (fst (onDynamicSensorsDisconnected c removed i s)) = mWakelockRefCount s"
proof -
  show "mWakelockRefCount (fst (onDynamicSensorsConnected c added i s)) = mWakelockRefCount s"
    by (induction added arbitrary: s) (simp_all add: Let_def case_prod_beta')
  show "mWakelockRefCount (fst (onDynamicSensorsDisconnected c removed i s)) = mWakelockRefCount s"
    by (induction removed arbitrary: s) (simp_all add: Let_def case_prod_beta')
qed

lemma mode_count: "mWakelockRefCount (snd (setOperationMode env mode s)) = mWakelockRefCount s"
proof -
  obtain r j t where l: "setOperationMode_loop env mode (length (mSubHalList s)) 0 s = (r, j, t)"
    by (metis prod_cases3)
  from set_mode_loop [OF l] have "mWakelockRefCount t = mWakelockRefCount s" by auto
  then show ?thesis by (simp add: setOperationMode_def l reset_modes_eq)
qed

lemma request_same:
  assumes "proxy_request c env s t"
  shows "same_proxy s t" and "mWakelockRefCount t = mWakelockRefCount s"
proof -
  show "same_proxy s t"
    using assms by cases (simp_all add: same_proxy_requests same_proxy_mode same_proxy_connected same_proxy_disconnected)
  show "mWakelockRefCount t = mWakelockRefCount s"
    using assms
    by cases (simp_all add: dynamic_count mode_count activate_def batch_def flush_def injectSensorData_def call_subhal_def
        registerDirectChannel_def unregisterDirectChannel_def configDirectReport_def Let_def split: option.split)
qed

lemma session_inv_same:
  assumes inv: "session_inv c S" and t: "same_proxy (proxy S) t" and k: "quiet_wakelock (proxy S) t"
    and m: "mWakelockRefCount t \<noteq> mWakelockRefCount (proxy S) \<Longrightarrow> wakelock_mutex_free S"
  shows "session_inv c (proceed t S)"
proof (rule session_inv_proceed [OF inv _ _ _ _ k m])
  show "proxy_inv c t" using inv t by (auto simp: session_inv_def intro: same_proxy_inv)
  show "keeps_waits S t" using t by (intro same_threads_waits same_proxy_threads)
  show "write_mutex_free S" if "mPendingWriteEventsQueue t \<noteq> mPendingWriteEventsQueue (proxy S)"
    using that t by (simp add: same_proxy_def same_queue_def)
  show "quiet_writer (proxy S) t"
    using t by (simp add: quiet_writer_def same_proxy_def same_queue_def)
qed

lemma session_inv_post:
  assumes inv: "session_inv c S" and p: "(n, ys, locked) \<in> set (posting S)" "write_mutex_free S"
    "\<not> locked \<or> wakelock_mutex_free S"
    and post: "postEventsToMessageQueue c now avail ok ys n locked (proxy S) = Inr t"
  shows "session_inv c (proceed t (S\<lparr>posting := remove1 (n, ys, locked) (posting S)\<rparr>))"
proof (rule session_inv_proceed [OF session_inv_posting [OF inv]])
  let ?S = "S\<lparr>posting := remove1 (n, ys, locked) (posting S)\<rparr>"
  have "batch_fits c ys" using inv p(1) by (auto simp: session_inv_def)
  then show "proxy_inv c t" using inv proxy_inv_post [OF _ _ post] by (simp add: session_inv_def)
  show "keeps_waits ?S t" by (rule same_threads_waits) (simp add: same_threads_post [OF post])
  show "quiet_writer (proxy ?S) t" using post_notifies [OF post] by simp
  show "quiet_wakelock (proxy ?S) t" using post_wakelock [OF post] by simp
  show "write_mutex_free ?S" using p(2) by (simp add: write_mutex_free_def)
  show "wakelock_mutex_free ?S" if "mWakelockRefCount t \<noteq> mWakelockRefCount (proxy ?S)"
  proof (cases locked)
    case True
    then show ?thesis using p(3) by (simp add: wakelock_mutex_free_def)
  next
    case False
    with post have "mWakelockRefCount t = mWakelockRefCount (proxy S)"
      by (auto simp: postEventsToMessageQueue_def post_left_def Let_def split: if_splits)
    with that show ?thesis by simp
  qed
qed

lemma session_inv_write:
  assumes inv: "session_inv c S" and pc: "mPendingWritesThread (proxy S) = Some (WrWriting n w q)"
    and free: "ok \<or> wakelock_mutex_free S" and written: "handlePendingWrites_write c ok n w q (proxy S) = Inr t"
  shows "session_inv c (proceed (t\<lparr>mPendingWritesThread := Some (WrWritten n q)\<rparr>) S)"
proof -
  let ?t = "t\<lparr>mPendingWritesThread := Some (WrWritten n q)\<rparr>"
  have i: "proxy_inv c (proxy S)" "queue_inv c (proxy S)" "writer_ok (WrWriting n w q) (proxy S)"
    using inv pc by (auto simp: session_inv_def proxy_inv_def)
  note e = write_effectD [OF i(2,3) written] and st = same_threads_write [OF written]
  have p: "proxy_inv c ?t" by (rule proxy_inv_writer_pc [OF i(1) st e(1,2)]) simp
  have r: "writer_cv S = Running" using inv pc by (auto simp: session_inv_def)
  have "mWakelockRefCount t = mWakelockRefCount (proxy S)" if ok
    using written that by (auto simp: handlePendingWrites_write_def split: list.splits)
  then have m: "mWakelockRefCount ?t \<noteq> mWakelockRefCount (proxy S) \<Longrightarrow> wakelock_mutex_free S"
    using free by auto
  have "keeps_waits S ?t" using st r by (simp add: keeps_waits_def same_threads_def)
  moreover have "quiet_writer (proxy S) ?t" using e(8) by (simp add: quiet_writer_def)
  moreover have "quiet_wakelock (proxy S) ?t"
    using write_quiet [OF written] by (simp add: quiet_wakelock_def)
  ultimately show ?thesis
    using e(8) by (intro session_inv_proceed [OF inv p _ _ _ _ m]) simp_all
qed

lemma session_inv_pop:
  assumes inv: "session_inv c S" and pc: "mPendingWritesThread (proxy S) = Some (WrWritten n q)"
    and pop: "handlePendingWrites_pop n q (proxy S) = Inr t"
  shows "session_inv c (S\<lparr>proxy := t\<lparr>mPendingWritesThread := Some WrWait\<rparr>\<rparr>)"
proof -
  have i: "proxy_inv c (proxy S)" "queue_inv c (proxy S)" "writer_ok (WrWritten n q) (proxy S)"
    using inv pc by (auto simp: session_inv_def proxy_inv_def)
  note st = same_threads_pop [OF pop]
  have "proxy_inv c (t\<lparr>mPendingWritesThread := Some WrWait\<rparr>)"
    by (rule proxy_inv_writer_pc [OF i(1) st pop_effectD(1) [OF i(2,3) pop]]) simp_all
  moreover have "mWakelockRefCount t = mWakelockRefCount (proxy S)"
    using pop by (auto simp: handlePendingWrites_pop_def Let_def split: list.splits)
  ultimately show ?thesis using inv pc st by (auto simp: session_inv_def same_threads_def)
qed

lemma session_inv_thread:
  assumes inv: "session_inv c S" and step: "thread_step c S T"
  shows "session_inv c T"
  using step
proof cases
  case writer_test
  with inv show ?thesis by (auto simp: session_inv_def handlePendingWrites_awake_def)
next
  case (writer_head pc)
  have "writer_ok pc (proxy S)" "\<not> mThreadsRun (proxy S) \<or> pc \<noteq> WrExited"
    using writer_head(5) head_writer_ok
    by (auto simp: handlePendingWrites_head_def split: if_splits list.splits option.splits)
  then have "proxy_inv c ((proxy S)\<lparr>mPendingWritesThread := Some pc\<rparr>)"
    using inv proxy_inv_writer_pc [of c "proxy S" "proxy S" pc]
    by (simp add: session_inv_def same_threads_def proxy_inv_def)
  with inv writer_head show ?thesis by (auto simp: session_inv_def)
next
  case wakelock_test
  with inv show ?thesis by (auto simp: session_inv_def handleWakelocks_awake_def word_gt_0)
next
  case (wakelock_head now now' wpc t)
  have sp: "same_proxy (proxy S) t" by (rule same_proxy_wakelock_thread(1) [OF wakelock_head(5)])
  have "\<not> mThreadsRun (proxy S) \<or> wpc \<noteq> WlExited"
    using wakelock_head(5) by (auto simp: handleWakelocks_head_def split: option.splits if_splits)
  then have "proxy_inv c (t\<lparr>mWakelockThread := Some wpc\<rparr>)"
    using inv by (intro proxy_inv_wakelock_pc [OF _ sp]) (simp_all add: session_inv_def)
  with inv wakelock_head(1,3) sp show ?thesis by (auto simp: session_inv_def same_proxy_def same_queue_def)
next
  case (wakelock_read left r wpc t)
  have sp: "same_proxy (proxy S) t" by (rule same_proxy_wakelock_thread(2) [OF wakelock_read(3)])
  have "wpc = WlHead" using wakelock_read(3) by (auto simp: handleWakelocks_read_def split: option.splits)
  then have "proxy_inv c (t\<lparr>mWakelockThread := Some wpc\<rparr>)"
    using inv by (intro proxy_inv_wakelock_pc [OF _ sp]) (simp_all add: session_inv_def)
  with inv wakelock_read(1,2) sp show ?thesis by (auto simp: session_inv_def same_proxy_def same_queue_def)
next
  case writer_block
  with inv show ?thesis by (auto simp: session_inv_def)
next
  case wakelock_block
  with inv show ?thesis by (auto simp: session_inv_def)
qed (use session_inv_write [OF inv] session_inv_pop [OF inv] in blast)+

lemma session_inv_step:
  assumes inv: "session_inv c S" and step: "session_step c env S T"
  shows "session_inv c T"
  using step
proof cases
  case (request t)
  with session_inv_request [OF inv] request_same show ?thesis by blast
next
  case (post_begin es asserts info i locked n ys)
  note p = prepared_fits [OF post_begin(2,3)]
  from inv p(2) have "mEventQueue (proxy S) \<noteq> None" by (simp add: session_inv_def proxy_inv_def)
  with inv p(1) post_begin(1) show ?thesis by (auto simp: session_inv_def)
next
  case post_end
  with session_inv_post [OF inv] show ?thesis by blast
next
  case scoped_lock
  with session_inv_same [OF inv] same_proxy_wakelock(1) inc_notifies show ?thesis by blast
next
  case scoped_unlock
  with session_inv_same [OF inv] same_proxy_wakelock(2) dec_quiet show ?thesis by blast
next
  case thread
  with session_inv_thread [OF inv] show ?thesis by blast
next
  case init_begin
  with inv proxy_inv_stop_signal [of c "proxy S"] show ?thesis
    by (auto simp: session_inv_def stop_signal_frame dest: proceed_waits)
next
  case (init_end now' quantum ef wfl res t)
  from inv init_end(2) have "proxy_inv c (proxy S)" "\<not> mThreadsRun (proxy S)" by (auto simp: session_inv_def)
  note t = proxy_inv_initialize_rest [OF this init_end(5)]
  with inv init_end(1) show ?thesis by (simp add: session_inv_def)
qed

lemma session_inv_spurious: "session_inv c S \<Longrightarrow> spurious_wakeup S T \<Longrightarrow> session_inv c T"
  by (erule spurious_wakeup.cases) (auto simp: session_inv_def)

lemma session_inv_init: "session_init c S \<Longrightarrow> session_inv c S"
  by (auto simp: session_init_def session_inv_def proxy_inv_constructed)

interpretation hs: transition_invariant "session_init c" "any_step c env" "session_inv c" for c env
  by unfold_locales (auto simp: any_step_def intro: session_inv_init session_inv_step session_inv_spurious)

lemma post_fault:
  assumes "session_inv c S" and "(n, ys, locked) \<in> set (posting S)"
  shows "postEventsToMessageQueue c now avail ok ys n locked (proxy S) = Inl f \<longleftrightarrow>
     f = NullEventQueueFlag \<and> \<not> mEventQueueFlag (proxy S) \<and> mPendingWriteEventsQueue (proxy S) = []
     \<and> ok \<and> 0 < min (of_nat (length ys)) avail"
proof -
  have "mEventQueue (proxy S) \<noteq> None" using assms by (auto simp: session_inv_def)
  then show ?thesis by (auto simp: postEventsToMessageQueue_def Let_def queue_simps)
qed

section \<open>Properties\<close>


text \<open>
  C5: no wake-up is lost while the proxy runs. Whenever the pending writes thread sleeps, or is about to, no event is pending, and
  whenever the wake lock thread does, the reference count is zero: each of them has been notified of
  anything it has to do.
\<close>

theorem no_lost_wakeup:
  assumes "reachable (session_init c) (any_step c env) S" and "mThreadsRun (proxy S)"
  shows "(writer_cv S \<noteq> Running \<longrightarrow> pending_events (proxy S) = [])
    \<and> (wakelock_cv S \<noteq> Running \<longrightarrow> mWakelockRefCount (proxy S) = 0)"
  using hs.reachable_inv [OF assms(1)] assms(2) by (auto simp: session_inv_def pending_events_def)

text \<open>
  C6: the threads never fault. In every reachable state the pending writes thread finds what it needs: at the loop head,
  after \<open>writeBlocking\<close> with either outcome, and when it removes what it has written.
\<close>

theorem writer_never_faults:
  assumes "reachable (session_init c) (any_step c env) S"
  shows "case mPendingWritesThread (proxy S) of
      Some WrWait \<Rightarrow> handlePendingWrites_awake (proxy S) \<longrightarrow> (\<exists>pc. handlePendingWrites_head (proxy S) = Inr pc)
    | Some (WrWriting n w q) \<Rightarrow> \<exists>t. handlePendingWrites_write c ok n w q (proxy S) = Inr t
    | Some (WrWritten n q) \<Rightarrow> \<exists>t. handlePendingWrites_pop n q (proxy S) = Inr t
    | _ \<Rightarrow> True"
proof -
  have inv: "proxy_inv c (proxy S)" using hs.reachable_inv [OF assms] by (simp add: session_inv_def)
  show ?thesis
  proof (cases "mPendingWritesThread (proxy S)")
    case (Some pc)
    then have i: "queue_inv c (proxy S)" "writer_ok pc (proxy S)" using inv by (auto simp: proxy_inv_def)
    show ?thesis
    proof (cases pc)
      case WrWait
      then show ?thesis using inv Some
        by (auto simp: proxy_inv_def handlePendingWrites_head_def handlePendingWrites_awake_def split: list.split)
    next
      case (WrWriting n w q)
      then show ?thesis using i Some write_effect [of c "proxy S" n w q ok] by auto
    next
      case (WrWritten n q)
      then show ?thesis using i Some pop_effect [of c "proxy S" n q] by auto
    qed (simp add: Some)
  qed simp
qed


section \<open>Stopping the threads\<close>

fun writer_work :: "writer_pc option \<Rightarrow> nat" where
  "writer_work (Some (WrWriting n w q)) = 3"
| "writer_work (Some (WrWritten n q)) = 2"
| "writer_work (Some WrWait) = 1"
| "writer_work _ = 0"

fun wakelock_work :: "wakelock_pc option \<Rightarrow> nat" where
  "wakelock_work (Some (WlReading t)) = 2"
| "wakelock_work (Some WlHead) = 1"
| "wakelock_work _ = 0"

definition work_left :: "session \<Rightarrow> nat" where
  "work_left S = writer_work (mPendingWritesThread (proxy S)) + wakelock_work (mWakelockThread (proxy S))"

lemma writer_work_0: "writer_work (mPendingWritesThread s) = 0 \<longleftrightarrow> writer_gone s"
  by (auto simp: writer_gone_def elim: writer_work.elims)

lemma wakelock_work_0: "wakelock_work (mWakelockThread s) = 0 \<longleftrightarrow> wakelock_gone s"
  by (auto simp: wakelock_gone_def elim: wakelock_work.elims)

text \<open>An initialisation waits for the threads and neither of them sleeps.\<close>

definition winding_down :: "session \<Rightarrow> bool" where
  "winding_down S \<longleftrightarrow> stopping S \<and> writer_cv S = Running \<and> wakelock_cv S = Running"

lemma stopped: "session_inv c S \<Longrightarrow> stopping S \<Longrightarrow> \<not> mThreadsRun (proxy S)"
  by (auto simp: session_inv_def)

lemma thread_step_winds_down:
  assumes inv: "session_inv c S" and wd: "winding_down S" and step: "thread_step c S T"
  shows "winding_down T \<and> work_left T < work_left S"
proof -
  have run: "\<not> mThreadsRun (proxy S)" using stopped [OF inv] wd by (simp add: winding_down_def)
  from step show ?thesis
  proof cases
    case (writer_head pc)
    then have "pc = WrExited" using run by (auto simp: handlePendingWrites_head_def)
    with writer_head wd show ?thesis by (auto simp: work_left_def winding_down_def)
  next
    case (writer_write n w q ok t)
    with wd same_threads_write [OF writer_write(4)] show ?thesis
      by (auto simp: work_left_def winding_down_def same_threads_def proceed_def notify_one_def)
  next
    case (writer_pop n q t)
    with wd same_threads_pop [OF writer_pop(3)] show ?thesis
      by (auto simp: work_left_def winding_down_def same_threads_def)
  next
    case (wakelock_head now now' wpc t)
    then have "wpc = WlExited" "mPendingWritesThread t = mPendingWritesThread (proxy S)"
      using run same_proxy_wakelock_thread(1) [OF wakelock_head(5)]
      by (auto simp: handleWakelocks_head_def same_proxy_def)
    with wakelock_head wd show ?thesis by (auto simp: work_left_def winding_down_def)
  next
    case (wakelock_read left r wpc t)
    then have "wpc = WlHead" "mPendingWritesThread t = mPendingWritesThread (proxy S)"
      using same_proxy_wakelock_thread(2) [OF wakelock_read(3)]
      by (auto simp: handleWakelocks_read_def same_proxy_def split: option.splits)
    with wakelock_read wd show ?thesis by (auto simp: work_left_def winding_down_def)
  qed (use wd run in \<open>auto simp: winding_down_def handlePendingWrites_awake_def handleWakelocks_awake_def\<close>)
qed

lemma any_step_winds_down:
  assumes inv: "session_inv c S" and wd: "winding_down S" and step: "any_step c env S T" and st: "stopping T"
  shows "winding_down T \<and> work_left T \<le> work_left S"
  using step unfolding any_step_def
proof
  assume "spurious_wakeup S T"
  then show ?thesis using wd by cases (simp_all add: winding_down_def)
next
  have same: "winding_down (proceed t S') \<and> work_left (proceed t S') \<le> work_left S'"
    if "winding_down S'" "same_threads (proxy S') t" for S' t
    using that by (auto simp: winding_down_def work_left_def same_threads_def proceed_def notify_one_def)
  assume "session_step c env S T"
  then show ?thesis
  proof cases
    case (request t)
    with wd same_proxy_threads [OF request_same(1) [OF request(2)]] show ?thesis
      by (simp add: winding_down_def work_left_def same_threads_def)
  next
    case post_begin
    with wd show ?thesis by (simp add: winding_down_def work_left_def)
  next
    case (post_end n ys locked now avail ok t)
    let ?S = "S\<lparr>posting := remove1 (n, ys, locked) (posting S)\<rparr>"
    have "winding_down ?S" "work_left ?S = work_left S" using wd by (simp_all add: winding_down_def work_left_def)
    with same [of ?S t] same_threads_post [OF post_end(5)] post_end(1) show ?thesis by simp
  next
    case scoped_lock
    with same [OF wd same_proxy_threads [OF same_proxy_wakelock(1)]] show ?thesis by blast
  next
    case scoped_unlock
    with same [OF wd same_proxy_threads [OF same_proxy_wakelock(2)]] show ?thesis by blast
  next
    case thread
    with thread_step_winds_down [OF inv wd] show ?thesis by (simp add: less_imp_le)
  next
    case init_begin
    with wd show ?thesis by (simp add: winding_down_def)
  next
    case init_end
    with st show ?thesis by simp
  qed
qed

lemma thread_step_enabled:
  assumes inv: "session_inv c S" and wd: "winding_down S" and work: "work_left S \<noteq> 0"
  shows "\<exists>T. thread_step c S T"
proof -
  let ?s = "proxy S"
  have run: "\<not> mThreadsRun ?s" using stopped [OF inv] wd by (simp add: winding_down_def)
  have cv: "writer_cv S = Running" "wakelock_cv S = Running" using wd by (simp_all add: winding_down_def)
  have i: "queue_inv c ?s" "\<And>pc. mPendingWritesThread ?s = Some pc \<Longrightarrow> writer_ok pc ?s"
    using inv by (auto simp: session_inv_def proxy_inv_def)
  from work consider n w q where "mPendingWritesThread ?s = Some (WrWriting n w q)"
    | n q where "mPendingWritesThread ?s = Some (WrWritten n q)"
    | "mPendingWritesThread ?s = Some WrWait"
    | t where "mWakelockThread ?s = Some (WlReading t)" | "mWakelockThread ?s = Some WlHead"
    by (cases "mPendingWritesThread ?s" rule: writer_work.cases; cases "mWakelockThread ?s" rule: wakelock_work.cases)
      (simp_all add: work_left_def)
  then show ?thesis
  proof cases
    case 1
    obtain t where "handlePendingWrites_write c True n w q ?s = Inr t" by (rule write_effect [OF i(1) i(2) [OF 1]])
    from writer_write [OF 1 _ this] show ?thesis by blast
  next
    case 2
    obtain t where "handlePendingWrites_pop n q ?s = Inr t" by (rule pop_effect [OF i(1) i(2) [OF 2]])
    from writer_pop [OF 2 this] show ?thesis by blast
  next
    case 3
    have "handlePendingWrites_awake ?s" "handlePendingWrites_head ?s = Inr WrExited"
      using run by (simp_all add: handlePendingWrites_awake_def handlePendingWrites_head_def)
    from writer_head [OF 3 cv(1) this] show ?thesis by blast
  next
    case 4
    obtain wpc u where "handleWakelocks_read None ?s = (wpc, u)" by fastforce
    from wakelock_read [OF 4 this] show ?thesis by blast
  next
    case 5
    obtain wpc u where "handleWakelocks_head c 0 0 ?s = (wpc, u)" by fastforce
    moreover have "handleWakelocks_awake ?s" using run by (simp add: handleWakelocks_awake_def)
    ultimately show ?thesis using wakelock_head [OF 5 cv(2)] by blast
  qed
qed

text \<open>
  C8: a stop that reaches the threads completes. When an initialisation waits for the threads and neither sleeps, at most five
  steps of the threads are left: each of their steps brings the end nearer, nobody else's step
  delays it or sends a thread to sleep, one of them can always go on, and when both have
  ended the initialisation goes on and the threads run again.
\<close>

theorem stop_completes:
  assumes reach: "reachable (session_init c) (any_step c env) S" and wd: "winding_down S"
  shows "work_left S \<le> 5
    \<and> (\<forall>T. thread_step c S T \<longrightarrow> winding_down T \<and> work_left T < work_left S)
    \<and> (\<forall>T. any_step c env S T \<longrightarrow> stopping T \<longrightarrow> winding_down T \<and> work_left T \<le> work_left S)
    \<and> (work_left S \<noteq> 0 \<longrightarrow> (\<exists>T. thread_step c S T))
    \<and> (work_left S = 0 \<longrightarrow> (\<exists>T. any_step c env S T \<and> \<not> stopping T \<and> mThreadsRun (proxy T)))"
proof (intro conjI impI allI)
  have inv: "session_inv c S" by (rule hs.reachable_inv [OF reach])
  have "writer_work p \<le> 3" for p by (cases p rule: writer_work.cases) simp_all
  moreover have "wakelock_work p \<le> 2" for p by (cases p rule: wakelock_work.cases) simp_all
  ultimately show "work_left S \<le> 5" unfolding work_left_def using add_mono by fastforce
  show "winding_down T" "work_left T < work_left S" if "thread_step c S T" for T
    using thread_step_winds_down [OF inv wd that] by simp_all
  show "winding_down T" "work_left T \<le> work_left S" if "any_step c env S T" "stopping T" for T
    using any_step_winds_down [OF inv wd that] by simp_all
  show "\<exists>T. thread_step c S T" if "work_left S \<noteq> 0" using thread_step_enabled [OF inv wd that] .
  show "\<exists>T. any_step c env S T \<and> \<not> stopping T \<and> mThreadsRun (proxy T)" if "work_left S = 0"
  proof -
    have gone: "writer_gone (proxy S)" "wakelock_gone (proxy S)"
      using that by (simp_all add: work_left_def writer_work_0 wakelock_work_0)
    have st: "stopping S" using wd by (simp add: winding_down_def)
    obtain res t where t: "initializeCommon_rest c env 0 0 True True True
        ((proxy S)\<lparr>mPendingWritesThread := None, mWakelockThread := None\<rparr>) = (res, t)" by fastforce
    have "proxy_inv c (proxy S)" using inv by (simp add: session_inv_def)
    then have "mThreadsRun t" using proxy_inv_initialize_rest(2) [OF _ stopped [OF inv st] t] by blast
    with init_end [OF st gone t] show ?thesis by (fastforce simp: any_step_def)
  qed
qed

text \<open>
  The pending writes thread sleeps although the threads are to stop, and no post is under way: nothing but a spurious
  wake-up can wake it.
\<close>

definition hung :: "session \<Rightarrow> bool" where
  "hung S \<longleftrightarrow> stopping S \<and> \<not> mThreadsRun (proxy S) \<and> mPendingWritesThread (proxy S) = Some WrWait
     \<and> writer_cv S = Blocked \<and> posting S = []"

lemma hung_step:
  assumes h: "hung S" and step: "session_step c env S T"
  shows "hung T"
  using step
proof cases
  case (request t)
  with h request_same(1) [OF request(2)] show ?thesis by (auto simp: hung_def same_proxy_def same_queue_def)
next
  case (post_begin es asserts info i locked n ys)
  from prepared_fits(2) [OF post_begin(2,3)] h show ?thesis by (simp add: hung_def)
next
  case (scoped_lock now)
  with h show ?thesis by (simp add: hung_def proceed_def new_calls_def incrementRefCountAndMaybeAcquireWakelock_def)
next
  case (scoped_unlock start)
  with h show ?thesis by (simp add: hung_def proceed_def new_calls_def decrementRefCountAndMaybeReleaseWakelock_def)
next
  case thread
  then show ?thesis
  proof cases
    case (wakelock_head now now' wpc t)
    with h same_proxy_wakelock_thread(1) [OF wakelock_head(5)] show ?thesis
      by (auto simp: hung_def same_proxy_def same_queue_def)
  next
    case (wakelock_read left r wpc t)
    with h same_proxy_wakelock_thread(2) [OF wakelock_read(3)] show ?thesis
      by (auto simp: hung_def same_proxy_def same_queue_def)
  qed (use h in \<open>auto simp: hung_def\<close>)
qed (use h in \<open>auto simp: hung_def writer_gone_def\<close>)

lemma hung_forever: "(session_step c env)\<^sup>*\<^sup>* S T \<Longrightarrow> hung S \<Longrightarrow> hung T"
  by (induction rule: rtranclp_induct) (auto intro: hung_step)

text \<open>A proxy without sub-HALs, before and after its initialisation.\<close>

definition blank_example :: halproxy where
  "blank_example = example_proxy\<lparr>mSubHalList := [], mSensors := [], mDynamicSensors := [], mDirectChannelSubHal := None,
     mPendingWriteEventsQueue := [], mSizePendingWriteEventsQueue := 0, mMostEventsObservedPendingWriteEventsQueue := 0,
     mThreadsRun := False, mWakelockRefCount := 0, mPendingWritesThread := None, mWakelockThread := None\<rparr>"

definition new_session :: "sensor_consts \<Rightarrow> session" where
  "new_session c = \<lparr>proxy = HalProxy_from_config c (loader_example\<lparr>config_file := \<lambda>_. None\<rparr>) (\<lambda>_. []) blank_example,
     writer_cv = Running, wakelock_cv = Running, posting = [], stopping = False\<rparr>"

lemma new_session_init: "session_init c (new_session c)"
  by (force simp: session_init_def new_session_def blank_proxy_def blank_example_def)

lemma new_session_proxy: "proxy (new_session c) = blank_example"
  by (simp add: new_session_def HalProxy_from_config_def initializeSubHalListFromConfigFile_def init_proxy_def
      initializeSensorList_def blank_example_def)

lemma started_session:
  obtains S where "(session_step c env)\<^sup>*\<^sup>* (new_session c) S" "\<not> stopping S" "posting S = []"
    "mPendingWritesThread (proxy S) = Some WrWait" "mWakelockThread (proxy S) = Some WlHead" "writer_cv S = Running"
    "wakelock_cv S = Running" "mThreadsRun (proxy S)" "mPendingWriteEventsQueue (proxy S) = []"
    "mEventQueueFlag (proxy S) = flag"
proof -
  let ?S0 = "new_session c"
  let ?S1 = "proceed (stopThreads_signal (proxy ?S0)) ?S0\<lparr>stopping := True\<rparr>"
  have gone: "writer_gone (proxy ?S1)" "wakelock_gone (proxy ?S1)" "\<not> mThreadsRun (proxy ?S1)"
    by (simp_all add: new_session_proxy writer_gone_def wakelock_gone_def stop_signal_frame blank_example_def)
  have 1: "session_step c env ?S0 ?S1" by (rule init_begin) (simp add: new_session_def)
  let ?s = "(proxy ?S1)\<lparr>mPendingWritesThread := None, mWakelockThread := None\<rparr>"
  obtain res t where t: "initializeCommon_rest c env 0 8 flag True True ?s = (res, t)" by fastforce
  have "stopping ?S1" by simp
  note 2 = init_end [OF this gone(1,2) t]
  from initialize_rest_shape [OF t] gone(3) obtain calls where
    "t = initialized ?s 0 8 flag True True\<lparr>subhal_calls := calls\<rparr>" by auto
  with 1 2 show ?thesis
    by (intro that [OF converse_rtranclp_into_rtranclp [OF 1 r_into_rtranclp [of "session_step c env", OF 2]]])
      (simp_all add: initialized_def new_session_def)
qed

text \<open>
  Stopping can hang. \<open>stopThreads\<close> clears \<open>mThreadsRun\<close> and notifies without holding the mutex of the condition variable. If the pending writes thread has
  tested its predicate but does not sleep yet, it misses the notification, and from then on no step of any
  thread, sub-HAL or client lets the initialisation return, for every configuration and all sub-HALs.
\<close>

theorem stop_can_hang:
  "\<exists>S. reachable (session_init c) (session_step c env) S \<and> stopping S
     \<and> (\<forall>T. (session_step c env)\<^sup>*\<^sup>* S T \<longrightarrow> stopping T)"
proof -
  obtain S where s: "(session_step c env)\<^sup>*\<^sup>* (new_session c) S" and S: "\<not> stopping S" "posting S = []"
    "mPendingWritesThread (proxy S) = Some WrWait" "writer_cv S = Running" "mThreadsRun (proxy S)"
    "mPendingWriteEventsQueue (proxy S) = []"
    by (rule started_session [of c env])
  let ?S1 = "S\<lparr>writer_cv := Tested\<rparr>"
  let ?S2 = "proceed (stopThreads_signal (proxy ?S1)) ?S1\<lparr>stopping := True\<rparr>"
  let ?S3 = "?S2\<lparr>writer_cv := Blocked\<rparr>"
  have tested: "writer_cv ?S2 = Tested" by (simp add: proceed_def notify_one_def)
  have "session_step c env S ?S1"
    by (rule thread, rule writer_test) (use S in \<open>simp_all add: handlePendingWrites_awake_def\<close>)
  moreover have "session_step c env ?S1 ?S2" by (rule init_begin) (use S in simp)
  moreover have "session_step c env ?S2 ?S3" by (rule thread, rule writer_block, rule tested)
  ultimately have "(session_step c env)\<^sup>*\<^sup>* (new_session c) ?S3"
    using s by (meson rtranclp.rtrancl_into_rtrancl)
  then have "reachable (session_init c) (session_step c env) ?S3"
    by (rule reachable_steps) (rule reach_init, rule new_session_init)
  moreover have "hung ?S3" using S by (simp add: hung_def stop_signal_frame)
  ultimately show ?thesis using hung_forever unfolding hung_def by blast
qed

lemma reachable_any: "reachable I (session_step c env) S \<Longrightarrow> reachable I (any_step c env) S"
  by (induction rule: reachable.induct) (auto intro: reachable.intros simp: any_step_def)

text \<open>
  After an initialisation that could not create the event flag and said so, the threads run and the sub-HALs are initialised all the same:
  the next event that is posted dereferences the null flag.
\<close>

theorem post_after_failed_initialisation:
  assumes "batch_fits c [e]"
  shows "\<exists>S n ys. reachable (session_init c) (session_step c env) S \<and> (n, ys, False) \<in> set (posting S)
    \<and> postEventsToMessageQueue c now 1 True ys n False (proxy S) = Inl NullEventQueueFlag"
proof -
  obtain S where s: "(session_step c env)\<^sup>*\<^sup>* (new_session c) S" and S: "posting S = []" "mThreadsRun (proxy S)"
    "mPendingWriteEventsQueue (proxy S) = []" "\<not> mEventQueueFlag (proxy S)"
    by (rule started_session [of c env False]) simp
  define info where "info = (\<lambda>_ :: i32. default_SensorInfo\<lparr>sensorType := PICK_UP_GESTURE c + 1\<rparr>)"
  have "processEvents c info 0 [e] = (of_nat (length (filter (wakes c info) [tag_event 0 e])), [tag_event 0 e])"
    by (simp add: processEvents_eq passes_def info_def)
  then obtain n where p: "postEvents_prepare c False (mThreadsRun (proxy S)) info 0 [e] False = Inr (Some (n, [tag_event 0 e]))"
    using S(2) by (simp add: postEvents_prepare_def)
  let ?S = "S\<lparr>posting := posting S @ [(n, [tag_event 0 e], False)]\<rparr>"
  have "reachable (session_init c) (session_step c env) S"
    using s by (rule reachable_steps) (rule reach_init, rule new_session_init)
  from reach_step [OF this post_begin [OF assms p]]
  have r: "reachable (session_init c) (session_step c env) ?S" .
  have in_post: "(n, [tag_event 0 e], False) \<in> set (posting ?S)" by simp
  have "postEventsToMessageQueue c now 1 True [tag_event 0 e] n False (proxy ?S) = Inl NullEventQueueFlag"
    using post_fault [OF hs.reachable_inv [OF reachable_any [OF r]] in_post] S by (simp add: word_gt_0)
  with r in_post show ?thesis by blast
qed

section \<open>The properties at concrete inputs\<close>

lemma started_reachable:
  obtains S where "reachable (session_init c) (any_step c env) S" "\<not> stopping S" "posting S = []"
    "mPendingWritesThread (proxy S) = Some WrWait" "mWakelockThread (proxy S) = Some WlHead" "writer_cv S = Running"
    "wakelock_cv S = Running" "mThreadsRun (proxy S)" "mPendingWriteEventsQueue (proxy S) = []"
proof -
  obtain S where s: "(session_step c env)\<^sup>*\<^sup>* (new_session c) S" "\<not> stopping S" "posting S = []"
    "mPendingWritesThread (proxy S) = Some WrWait" "mWakelockThread (proxy S) = Some WlHead" "writer_cv S = Running"
    "wakelock_cv S = Running" "mThreadsRun (proxy S)" "mPendingWriteEventsQueue (proxy S) = []"
    by (rule started_session [of c env])
  have "reachable (session_init c) (session_step c env) S"
    using s(1) by (rule reachable_steps) (rule reach_init, rule new_session_init)
  with s that show ?thesis by (blast intro: reachable_any)
qed


theorem no_lost_wakeup_witness:
  "\<exists>S. reachable (session_init aosp_consts) (any_step aosp_consts example_env) S
     \<and> writer_cv S = Tested \<and> pending_events (proxy S) = []"
proof -
  obtain S where S: "reachable (session_init aosp_consts) (any_step aosp_consts example_env) S" "mThreadsRun (proxy S)"
    "mPendingWritesThread (proxy S) = Some WrWait" "writer_cv S = Running" "mPendingWriteEventsQueue (proxy S) = []"
    by (rule started_reachable)
  let ?T = "S\<lparr>writer_cv := Tested\<rparr>"
  have "any_step aosp_consts example_env S ?T"
    unfolding any_step_def by (rule disjI1, rule thread, rule writer_test) (use S in \<open>simp_all add: handlePendingWrites_awake_def\<close>)
  from reach_step [OF S(1) this] have r: "reachable (session_init aosp_consts) (any_step aosp_consts example_env) ?T" .
  moreover have "mThreadsRun (proxy ?T)" using S(2) by simp
  ultimately show ?thesis using no_lost_wakeup [OF r] by (intro exI [of _ ?T]) simp
qed

text \<open>The witness state of the next three: an initialisation has told running threads to stop.\<close>

lemma told_to_stop:
  obtains S where "reachable (session_init aosp_consts) (any_step aosp_consts example_env) S" "winding_down S"
    "mPendingWritesThread (proxy S) = Some WrWait" "mWakelockThread (proxy S) = Some WlHead"
    "handlePendingWrites_awake (proxy S)"
proof -
  obtain S where S: "reachable (session_init aosp_consts) (any_step aosp_consts example_env) S" "\<not> stopping S"
    "mPendingWritesThread (proxy S) = Some WrWait" "mWakelockThread (proxy S) = Some WlHead"
    "writer_cv S = Running" "wakelock_cv S = Running"
    by (rule started_reachable)
  let ?T = "proceed (stopThreads_signal (proxy S)) S\<lparr>stopping := True\<rparr>"
  have "any_step aosp_consts example_env S ?T"
    unfolding any_step_def by (rule disjI1, rule init_begin, rule S(2))
  from reach_step [OF S(1) this] show ?thesis
    by (rule that) (use S in \<open>simp_all add: winding_down_def proceed_def notify_one_def stop_signal_frame
      handlePendingWrites_awake_def\<close>)
qed

theorem writer_never_faults_witness:
  "\<exists>(S :: session) pc. stopping S \<and> handlePendingWrites_head (proxy S) = Inr pc"
proof -
  obtain S where S: "reachable (session_init aosp_consts) (any_step aosp_consts example_env) S" "winding_down S"
    "mPendingWritesThread (proxy S) = Some WrWait" "handlePendingWrites_awake (proxy S)"
    by (rule told_to_stop)
  from writer_never_faults [OF S(1)] S(2-4) show ?thesis by (auto simp: winding_down_def)
qed

theorem stop_completes_witness:
  "\<exists>S T. work_left S = 2 \<and> thread_step aosp_consts S T \<and> work_left T < 2"
proof -
  obtain S where S: "reachable (session_init aosp_consts) (any_step aosp_consts example_env) S" "winding_down S"
    "mPendingWritesThread (proxy S) = Some WrWait" "mWakelockThread (proxy S) = Some WlHead"
    by (rule told_to_stop)
  have w: "work_left S = 2" using S(3,4) by (simp add: work_left_def)
  with stop_completes [OF S(1,2)] show ?thesis by (metis zero_neq_numeral)
qed


theorem post_after_failed_initialisation_witness:
  "\<exists>(S :: session) n ys. (n, ys, False) \<in> set (posting S)
    \<and> postEventsToMessageQueue aosp_consts 0 1 True ys n False (proxy S) = Inl NullEventQueueFlag"
proof -
  have "batch_fits aosp_consts [example_event 1]" by (simp add: batch_fits_def aosp_consts_def)
  from post_after_failed_initialisation [OF this] show ?thesis by blast
qed

end
