(* ===== verification/Usb_Port.thy ===== *)
theory Usb_Port
  imports Cpp_String
begin

text \<open>
  The type-C port helpers of \<open>src/usb/Usb.cpp\<close>: reading the sysfs nodes, the names of the ports,
  the current roles and the status vector reported to the framework.

  The numeric values of the HIDL enumerations are the record \<open>usb_consts\<close>. The kernel is the
  record \<open>usb_env\<close>: each of its answers is a function of the calls made before, and every call
  is appended to a log, so a theorem holds for every kernel, also one that changes its mind.
\<close>

section \<open>Data\<close>

record usb_consts =
  power_NONE :: u32
  power_SOURCE :: u32
  power_SINK :: u32
  data_NONE :: u32
  data_HOST :: u32
  data_DEVICE :: u32
  mode_NONE :: u32
  mode_UFP :: u32
  mode_DFP :: u32
  mode_DRP :: u32
  mode_AUDIO_ACCESSORY :: u32
  mode_DEBUG_ACCESSORY :: u32
  mode_1_0_NONE :: u32
  mode_1_0_DRP :: u32
  FORCE_SINK :: u32
  protection_NONE :: u32
  detection_NOT_DETECTED :: u32

datatype PortRoleType = DATA_ROLE | POWER_ROLE | MODE | OtherRoleType int

record PortRole =
  role_type :: PortRoleType
  role_role :: u32

datatype usb_status = SUCCESS | ERROR | UNRECOGNIZED_ROLE

text \<open>The three versions of the status of a port, nested as in the HIDL interface.\<close>

record PortStatus_1_0 =
  portName :: string
  currentDataRole :: u32
  currentPowerRole :: u32
  currentMode :: u32
  canChangeMode :: bool
  canChangeDataRole :: bool
  canChangePowerRole :: bool
  supportedModes :: u32

record PortStatus_1_1 =
  status :: PortStatus_1_0
  supportedModes_1_1 :: u32
  currentMode_1_1 :: u32

record PortStatus =
  status_1_1 :: PortStatus_1_1
  supportedContaminantProtectionModes :: u32
  supportsEnableContaminantPresenceProtection :: bool
  contaminantProtectionStatus :: u32
  supportsEnableContaminantPresenceDetection :: bool
  contaminantDetectionStatus :: u32

datatype HALVersion = V1_0 | V1_1 | V1_2 | V1_3

datatype usb_call =
    ReadNode string
  | OpenForWrite string
  | Fputs string string
  | ListDir string
  | OpenDir string
  | WriteFile string string
  | SignalPartner
  | NotifyRoleSwitch string PortRole usb_status
  | NotifyPorts_1_2 "PortStatus list" usb_status
  | NotifyPorts_1_1 "PortStatus_1_1 list" usb_status
  | NotifyPorts_1_0 "PortStatus_1_0 list" usb_status
  | ThreadCreate
  | ThreadJoin
  | OpenSocket
  | EpollCreate
  | CloseSocket
  | CloseEpoll

datatype d_type = DT_LNK | OtherType

text \<open>
  \<open>node_content\<close> is the content of a node opened for reading (\<open>None\<close>: \<open>fopen\<close> fails),
  \<open>dir_entries\<close> what \<open>readdir\<close> lists, \<open>map_order\<close> the order in which an unordered map is
  traversed.
\<close>

record usb_env =
  node_content :: "usb_call list \<Rightarrow> string \<Rightarrow> string option"
  can_open_write :: "usb_call list \<Rightarrow> string \<Rightarrow> bool"
  fputs_ok :: "usb_call list \<Rightarrow> string \<Rightarrow> string \<Rightarrow> bool"
  dir_entries :: "usb_call list \<Rightarrow> string \<Rightarrow> (d_type \<times> string) list option"
  dir_exists :: "usb_call list \<Rightarrow> string \<Rightarrow> bool"
  WriteStringToFile :: "usb_call list \<Rightarrow> string \<Rightarrow> string \<Rightarrow> bool"
  usb_GetProperty :: "string \<Rightarrow> string \<Rightarrow> string"
  map_order :: "(string \<times> bool) list \<Rightarrow> (string \<times> bool) list"
  new_status :: PortStatus

section \<open>Operations\<close>

text \<open>
  The result of \<open>readFile\<close>, the new contents and the log. \<open>getline\<close> fails on an empty file and
  then the contents stay as they were; otherwise they are the first line, up to the first
  null byte, without its newline.
\<close>

definition readFile ::
  "usb_env \<Rightarrow> string \<Rightarrow> string \<Rightarrow> usb_call list \<Rightarrow> int \<times> string \<times> usb_call list" where
  "readFile env filename contents calls =
     (let calls' = calls @ [ReadNode (c_str filename)]
      in case node_content env calls (c_str filename) of
           None \<Rightarrow> (-1, contents, calls')
         | Some f \<Rightarrow> (0, if f = [] then contents
                       else c_str (takeWhile (\<lambda>c. c \<noteq> CHR 0x0A) f), calls'))"

definition queryMoistureDetectionStatus ::
  "usb_consts \<Rightarrow> PortStatus list \<Rightarrow> usb_status \<times> PortStatus list" where
  "queryMoistureDetectionStatus c ports =
     (case ports of
        [] \<Rightarrow> (ERROR, [])
      | p # ps \<Rightarrow> (SUCCESS, p\<lparr>supportedContaminantProtectionModes := 0 OR FORCE_SINK c,
            contaminantProtectionStatus := protection_NONE c,
            contaminantDetectionStatus := detection_NOT_DETECTED c,
            supportsEnableContaminantPresenceDetection := False,
            supportsEnableContaminantPresenceProtection := False\<rparr> # ps))"

fun appendRoleNodeHelper :: "string \<Rightarrow> PortRoleType \<Rightarrow> string" where
  "appendRoleNodeHelper name DATA_ROLE = (''/sys/class/typec/'' @ name) @ ''/data_role''"
| "appendRoleNodeHelper name POWER_ROLE = (''/sys/class/typec/'' @ name) @ ''/power_role''"
| "appendRoleNodeHelper name MODE = (''/sys/class/typec/'' @ name) @ ''/port_type''"
| "appendRoleNodeHelper name (OtherRoleType _) = ''''"

definition convertRoletoString :: "usb_consts \<Rightarrow> PortRole \<Rightarrow> string" where
  "convertRoletoString c role =
     (if role_type role = POWER_ROLE \<and> role_role role = power_SOURCE c then ''source''
      else if role_type role = POWER_ROLE \<and> role_role role = power_SINK c then ''sink''
      else if role_type role = DATA_ROLE \<and> role_role role = data_HOST c then ''host''
      else if role_type role = DATA_ROLE \<and> role_role role = data_DEVICE c then ''device''
      else if role_type role = MODE \<and> role_role role = mode_UFP c then ''sink''
      else if role_type role = MODE \<and> role_role role = mode_DFP c then ''source''
      else ''none'')"

text \<open>\<open>substr\<close> does not throw: \<open>first + 1\<close> is at most the length, as \<open>extractRole_in_range\<close> shows.\<close>

definition extractRole :: "string \<Rightarrow> string" where
  "extractRole roleName =
     (let first = std_find roleName ''[''; last = std_find roleName '']''
      in if first \<noteq> npos \<and> last \<noteq> npos
         then take (unat (last - first - 1)) (drop (unat (first + 1)) roleName)
         else roleName)"

definition switchToDrp :: "usb_env \<Rightarrow> string \<Rightarrow> usb_call list \<Rightarrow> usb_call list" where
  "switchToDrp env name calls =
     (let filename = appendRoleNodeHelper (c_str name) MODE
      in if filename \<noteq> '''' then
           let opened = can_open_write env calls (c_str filename);
               calls = calls @ [OpenForWrite (c_str filename)]
           in if opened then calls @ [Fputs (c_str filename) ''dual''] else calls
         else calls)"

definition getAccessoryConnected ::
  "usb_env \<Rightarrow> string \<Rightarrow> string \<Rightarrow> usb_call list \<Rightarrow> usb_status \<times> string \<times> usb_call list" where
  "getAccessoryConnected env name accessory calls =
     (let filename = ''/sys/class/typec/'' @ name @ ''-partner/accessory_mode'';
          (r, accessory, calls) = readFile env filename accessory calls
      in if r \<noteq> 0 then (ERROR, accessory, calls) else (SUCCESS, accessory, calls))"

text \<open>The string that was read decides the role; the second component is \<open>*currentRole\<close>.\<close>

definition role_of_name :: "usb_consts \<Rightarrow> PortRoleType \<Rightarrow> string \<Rightarrow> u32 \<Rightarrow> usb_status \<times> u32" where
  "role_of_name c type roleName currentRole =
     (if roleName = ''source'' then (SUCCESS, power_SOURCE c)
      else if roleName = ''sink'' then (SUCCESS, power_SINK c)
      else if roleName = ''host'' then (SUCCESS, if type = DATA_ROLE then data_HOST c else mode_DFP c)
      else if roleName = ''device'' then (SUCCESS, if type = DATA_ROLE then data_DEVICE c else mode_UFP c)
      else if roleName \<noteq> ''none'' then (UNRECOGNIZED_ROLE, currentRole)
      else (SUCCESS, currentRole))"

text \<open>The part of \<open>getCurrentRoleHelper\<close> from the read of the role node on.\<close>

definition read_role ::
  "usb_consts \<Rightarrow> usb_env \<Rightarrow> PortRoleType \<Rightarrow> string \<Rightarrow> u32 \<Rightarrow> usb_call list \<Rightarrow> usb_status \<times> u32 \<times> usb_call list" where
  "read_role c env type filename currentRole calls =
     (let (r, roleName, calls) = readFile env filename '''' calls
      in if r \<noteq> 0 then (ERROR, currentRole, calls)
         else let (st, currentRole) = role_of_name c type (extractRole roleName) currentRole
              in (st, currentRole, calls))"

definition getCurrentRoleHelper ::
  "usb_consts \<Rightarrow> usb_env \<Rightarrow> string \<Rightarrow> bool \<Rightarrow> PortRoleType \<Rightarrow> u32 \<Rightarrow> usb_call list \<Rightarrow>
     usb_status \<times> u32 \<times> usb_call list" where
  "getCurrentRoleHelper c env name isConnected type currentRole calls =
     (case (case type of
              POWER_ROLE \<Rightarrow> Some (''/sys/class/typec/'' @ name @ ''/power_role'', power_NONE c)
            | DATA_ROLE \<Rightarrow> Some (''/sys/class/typec/'' @ name @ ''/data_role'', data_NONE c)
            | MODE \<Rightarrow> Some (''/sys/class/typec/'' @ name @ ''/data_role'', mode_NONE c)
            | OtherRoleType _ \<Rightarrow> None) of
        None \<Rightarrow> (ERROR, currentRole, calls)
      | Some (filename, currentRole) \<Rightarrow>
          if \<not> isConnected then (SUCCESS, currentRole, calls)
          else if type = MODE then
            let (st, accessory, calls) = getAccessoryConnected env name '''' calls
            in if st \<noteq> SUCCESS then (ERROR, currentRole, calls)
               else if accessory = ''analog_audio'' then (SUCCESS, mode_AUDIO_ACCESSORY c, calls)
               else if accessory = ''debug'' then (SUCCESS, mode_DEBUG_ACCESSORY c, calls)
               else read_role c env type filename currentRole calls
          else read_role c env type filename currentRole calls)"

text \<open>
  \<open>std::unordered_map<std::string, bool>\<close>: \<open>insert\<close> keeps an existing entry, assignment through
  \<open>[]\<close> replaces it. \<open>strtok\<close> returns null for a name made of dashes only; building a string
  from it is undefined, the result \<open>None\<close>.
\<close>

definition names_insert :: "string \<Rightarrow> (string \<times> bool) list \<Rightarrow> (string \<times> bool) list" where
  "names_insert n names = (if map_of names n = None then names @ [(n, False)] else names)"

definition names_assign :: "string \<Rightarrow> (string \<times> bool) list \<Rightarrow> (string \<times> bool) list" where
  "names_assign n names =
     (if map_of names n = None then names @ [(n, True)]
      else map (\<lambda>(k, b). (k, if k = n then True else b)) names)"

fun read_entries :: "(d_type \<times> string) list \<Rightarrow> (string \<times> bool) list \<Rightarrow> (string \<times> bool) list option" where
  "read_entries [] names = Some names"
| "read_entries ((ty, d_name) # es) names =
     (if ty = DT_LNK then
        (if npos = std_find (c_str d_name) ''-partner''
         then read_entries es (names_insert (c_str d_name) names)
         else case strtok_first d_name ''-'' of
                None \<Rightarrow> None
              | Some n \<Rightarrow> read_entries es (names_assign n names))
      else read_entries es names)"

definition getTypeCPortNamesHelper ::
  "usb_env \<Rightarrow> usb_call list \<Rightarrow> (usb_status \<times> (string \<times> bool) list) option \<times> usb_call list" where
  "getTypeCPortNamesHelper env calls =
     (let calls' = calls @ [ListDir ''/sys/class/typec'']
      in case dir_entries env calls ''/sys/class/typec'' of
           None \<Rightarrow> (Some (ERROR, []), calls')
         | Some es \<Rightarrow> (map_option (Pair SUCCESS) (read_entries es []), calls'))"

definition canSwitchRoleHelper ::
  "usb_env \<Rightarrow> string \<Rightarrow> PortRoleType \<Rightarrow> usb_call list \<Rightarrow> bool \<times> usb_call list" where
  "canSwitchRoleHelper env name type calls =
     (let filename = ''/sys/class/typec/'' @ name @ ''-partner/supports_usb_power_delivery'';
          (r, supportsPD, calls) = readFile env filename '''' calls
      in (r = 0 \<and> supportsPD = ''yes'', calls))"

section \<open>The status of the ports\<close>

definition upd_status :: "(PortStatus_1_0 \<Rightarrow> PortStatus_1_0) \<Rightarrow> PortStatus \<Rightarrow> PortStatus" where
  "upd_status f p = p\<lparr>status_1_1 := (status_1_1 p)\<lparr>status := f (status (status_1_1 p))\<rparr>\<rparr>"

text \<open>
  The end of the loop body: what is reported once the three roles are known. The middle of
  the body replaces a role that is NONE on a connected port.
\<close>

definition fill_flags ::
  "usb_consts \<Rightarrow> usb_env \<Rightarrow> HALVersion \<Rightarrow> string \<times> bool \<Rightarrow> PortStatus \<Rightarrow> usb_call list \<Rightarrow> PortStatus \<times> usb_call list" where
  "fill_flags c env version port p calls =
     (let p = upd_status (\<lambda>s. s\<lparr>canChangeMode := True\<rparr>) p;
          (b, calls) = (if snd port then canSwitchRoleHelper env (fst port) DATA_ROLE calls else (False, calls));
          p = upd_status (\<lambda>s. s\<lparr>canChangeDataRole := b\<rparr>) p;
          (b, calls) = (if snd port then canSwitchRoleHelper env (fst port) POWER_ROLE calls else (False, calls));
          p = upd_status (\<lambda>s. s\<lparr>canChangePowerRole := b\<rparr>) p;
          p = (if version = V1_0 then upd_status (\<lambda>s. s\<lparr>supportedModes := mode_1_0_DRP c\<rparr>) p
               else upd_status (\<lambda>s. s\<lparr>supportedModes := mode_1_0_NONE c, currentMode := mode_1_0_NONE c\<rparr>)
                      (p\<lparr>status_1_1 := (status_1_1 p)\<lparr>supportedModes_1_1 := 0 OR mode_DRP c\<rparr>\<rparr>))
      in (p, calls))"

text \<open>
  The loop body for one port; \<open>False\<close> is the jump to \<open>done\<close>. The local \<open>currentRole\<close> is not
  initialised, and \<open>getCurrentRoleHelper\<close> sets it first for each of the three types.
\<close>

definition fill_port ::
  "usb_consts \<Rightarrow> usb_env \<Rightarrow> HALVersion \<Rightarrow> string \<times> bool \<Rightarrow> usb_call list \<Rightarrow> bool \<times> PortStatus \<times> usb_call list" where
  "fill_port c env version port calls =
     (let p = upd_status (\<lambda>s. s\<lparr>portName := fst port\<rparr>) (new_status env);
          (st, currentRole, calls) = getCurrentRoleHelper c env (fst port) (snd port) POWER_ROLE 0 calls
      in if st \<noteq> SUCCESS then (False, p, calls)
         else
           let p = upd_status (\<lambda>s. s\<lparr>currentPowerRole := currentRole\<rparr>) p;
               (st, currentRole, calls) = getCurrentRoleHelper c env (fst port) (snd port) DATA_ROLE currentRole calls
           in if st \<noteq> SUCCESS then (False, p, calls)
              else
                let currentRole = (if snd port \<and> currentRole = data_NONE c then data_DEVICE c else currentRole);
                    p = upd_status (\<lambda>s. s\<lparr>currentDataRole := currentRole\<rparr>) p;
                    (st, currentRole, calls) = getCurrentRoleHelper c env (fst port) (snd port) MODE currentRole calls
                in if st \<noteq> SUCCESS then (False, p, calls)
                   else
                     let currentRole = (if snd port \<and> currentRole = mode_NONE c then mode_UFP c else currentRole);
                         p = p\<lparr>status_1_1 := (status_1_1 p)\<lparr>currentMode_1_1 := currentRole\<rparr>\<rparr>;
                         p = upd_status (\<lambda>s. s\<lparr>currentMode := currentRole\<rparr>) p;
                         (p, calls) = fill_flags c env version port p calls
                     in (True, p, calls))"

text \<open>On an error the entries of the remaining ports stay as \<open>resize\<close> made them.\<close>

fun fill_ports ::
  "usb_consts \<Rightarrow> usb_env \<Rightarrow> HALVersion \<Rightarrow> (string \<times> bool) list \<Rightarrow> usb_call list \<Rightarrow>
     bool \<times> PortStatus list \<times> usb_call list" where
  "fill_ports c env version [] calls = (True, [], calls)"
| "fill_ports c env version (port # ports) calls =
     (let (ok, p, calls) = fill_port c env version port calls
      in if \<not> ok then (False, p # replicate (length ports) (new_status env), calls)
         else let (ok, ps, calls) = fill_ports c env version ports calls in (ok, p # ps, calls))"

text \<open>The vector passed in is empty in every caller. \<open>None\<close> is the undefined behaviour of \<open>read_entries\<close>.\<close>

definition getPortStatusHelper ::
  "usb_consts \<Rightarrow> usb_env \<Rightarrow> HALVersion \<Rightarrow> usb_call list \<Rightarrow> (usb_status \<times> PortStatus list) option \<times> usb_call list" where
  "getPortStatusHelper c env version calls =
     (case getTypeCPortNamesHelper env calls of
        (None, calls) \<Rightarrow> (None, calls)
      | (Some (result, names), calls) \<Rightarrow>
          if result = SUCCESS then
            let (ok, ps, calls) = fill_ports c env version (map_order env names) calls
            in (Some (if ok then SUCCESS else ERROR, ps), calls)
          else (Some (ERROR, []), calls))"

section \<open>Lemmas\<close>

text \<open>The position passed to \<open>substr\<close> is in range.\<close>

lemma extractRole_in_range:
  assumes "std_find s ''['' \<noteq> npos" and "length s < 2 ^ 64"
  shows "unat (std_find s ''['' + 1) \<le> length s"
proof -
  have "CHR ''['' \<in> set s" using assms(1) by (auto simp: std_find_char split: if_splits)
  then obtain xs ys where s: "s = xs @ CHR ''['' # ys" "CHR ''['' \<notin> set xs" by (metis split_list_first)
  with assms(2) show ?thesis by (simp add: std_find_first unat_Suc_size)
qed

lemma of_nat_neq_npos: "n < 2 ^ 64 - 1 \<Longrightarrow> of_nat n \<noteq> npos"
proof
  assume "n < 2 ^ 64 - 1" "of_nat n = npos"
  then have "unat (of_nat n :: size_t) = 2 ^ 64 - 1" by simp
  with \<open>n < 2 ^ 64 - 1\<close> show False by simp
qed

lemma contains_partner_not_dashes:
  assumes "npos \<noteq> std_find (c_str d) ''-partner''"
  shows "\<exists>n. strtok_first d ''-'' = Some n"
proof -
  obtain k where "find_from ''-partner'' (c_str d) 0 = Some k"
    using assms by (auto simp: std_find_def split: option.splits)
  then obtain xs ys where "c_str d = xs @ ''-partner'' @ ys" using find_from_Some by blast
  then have "CHR ''p'' \<in> set (c_str d)" by simp
  then have "dropWhile (\<lambda>c. c \<in> set ''-'') (c_str d) \<noteq> []" by (auto simp: dropWhile_eq_Nil_conv)
  then show ?thesis by (simp add: strtok_first_def Let_def)
qed

text \<open>The two kinds of directory entries.\<close>

definition is_partner :: "string \<Rightarrow> bool" where
  "is_partner d \<longleftrightarrow> npos \<noteq> std_find (c_str d) ''-partner''"

definition port_entries :: "(d_type \<times> string) list \<Rightarrow> string set" where
  "port_entries es = {c_str d |d. (DT_LNK, d) \<in> set es \<and> \<not> is_partner d}"

definition partner_entries :: "(d_type \<times> string) list \<Rightarrow> string set" where
  "partner_entries es = {n |d n. (DT_LNK, d) \<in> set es \<and> is_partner d \<and> strtok_first d ''-'' = Some n}"

lemma map_of_names_insert:
  "map_of (names_insert n names) k = (if k = n \<and> map_of names n = None then Some False else map_of names k)"
  by (auto simp: names_insert_def map_add_def split: option.splits)

lemma map_of_names_assign:
  "map_of (names_assign n names) k = (if k = n then Some True else map_of names k)"
proof (cases "map_of names n")
  case None
  then show ?thesis by (auto simp: names_assign_def map_add_def split: option.splits)
next
  case (Some b)
  have "map_of (map (\<lambda>(k, b). (k, if k = n then True else b)) names) k =
      map_option (\<lambda>b. if k = n then True else b) (map_of names k)"
    by (induction names) auto
  with Some show ?thesis by (auto simp: names_assign_def option.map_ident)
qed

lemma distinct_names:
  "distinct (map fst names) \<Longrightarrow> distinct (map fst (names_insert n names)) \<and> distinct (map fst (names_assign n names))"
  by (auto simp: names_insert_def names_assign_def map_of_eq_None_iff comp_def split_def)

lemma read_entries_total: "\<exists>names'. read_entries es names = Some names'"
proof (induction es names rule: read_entries.induct)
  case (2 ty d es names)
  then show ?case using contains_partner_not_dashes [of d]
    by (cases "strtok_first d ''-''") auto
qed simp

lemma read_entries_spec:
  assumes "read_entries es names = Some names'" and "distinct (map fst names)"
  shows "distinct (map fst names')
    \<and> map_of names' k = (if k \<in> partner_entries es then Some True
        else if map_of names k \<noteq> None then map_of names k
        else if k \<in> port_entries es then Some False else None)"
  using assms
proof (induction es names rule: read_entries.induct)
  case (1 names)
  then show ?case by (cases "map_of names k") (auto simp: partner_entries_def port_entries_def)
next
  case (2 ty d es names)
  show ?case
  proof (cases "ty = DT_LNK")
    case False
    with 2 show ?thesis by (auto simp: partner_entries_def port_entries_def)
  next
    case True
    note lnk = True
    show ?thesis
    proof (cases "is_partner d")
      case False
      then have eq: "npos = std_find (c_str d) ''-partner''" by (simp add: is_partner_def)
      have p: "partner_entries ((ty, d) # es) = partner_entries es"
        "port_entries ((ty, d) # es) = insert (c_str d) (port_entries es)"
        using False True by (auto simp: partner_entries_def port_entries_def)
      show ?thesis
        using "2.IH"(1) [OF True eq] "2.prems" lnk eq distinct_names [OF "2.prems"(2), of "c_str d"]
        unfolding p by (auto simp: map_of_names_insert)
    next
      case True
      then have ne: "npos \<noteq> std_find (c_str d) ''-partner''" by (simp add: is_partner_def)
      obtain n where n: "strtok_first d ''-'' = Some n" using contains_partner_not_dashes [OF ne] by blast
      have p: "partner_entries ((ty, d) # es) = insert n (partner_entries es)"
        "port_entries ((ty, d) # es) = port_entries es"
        using True lnk n by (auto simp: partner_entries_def port_entries_def)
      show ?thesis
        using "2.IH"(2) [OF lnk ne n] "2.prems" lnk ne n distinct_names [OF "2.prems"(2), of n]
        unfolding p by (auto simp: map_of_names_assign)
    qed
  qed
qed

lemma upd_status_simps [simp]:
  "status (status_1_1 (upd_status f p)) = f (status (status_1_1 p))"
  "currentMode_1_1 (status_1_1 (upd_status f p)) = currentMode_1_1 (status_1_1 p)"
  by (simp_all add: upd_status_def)

text \<open>What a port that was read without error reports.\<close>

definition port_reported :: "usb_consts \<Rightarrow> HALVersion \<Rightarrow> string \<times> bool \<Rightarrow> PortStatus \<Rightarrow> bool" where
  "port_reported c version port p \<longleftrightarrow>
     (let s = status (status_1_1 p); mode = currentMode_1_1 (status_1_1 p)
      in portName s = fst port \<and> canChangeMode s
       \<and> currentMode s = (if version = V1_0 then mode else mode_1_0_NONE c)
       \<and> supportedModes s = (if version = V1_0 then mode_1_0_DRP c else mode_1_0_NONE c)
       \<and> (if snd port then currentDataRole s \<noteq> data_NONE c \<and> mode \<noteq> mode_NONE c
          else currentPowerRole s = power_NONE c \<and> currentDataRole s = data_NONE c \<and> mode = mode_NONE c
            \<and> \<not> canChangeDataRole s \<and> \<not> canChangePowerRole s))"

lemma role_disconnected:
  "getCurrentRoleHelper c env n False POWER_ROLE r calls = (SUCCESS, power_NONE c, calls)"
  "getCurrentRoleHelper c env n False DATA_ROLE r calls = (SUCCESS, data_NONE c, calls)"
  "getCurrentRoleHelper c env n False MODE r calls = (SUCCESS, mode_NONE c, calls)"
  by (simp_all add: getCurrentRoleHelper_def)

lemma fill_flags_reports:
  assumes "fill_flags c env version port p calls = (p', calls')"
  shows "portName (status (status_1_1 p')) = portName (status (status_1_1 p))
    \<and> currentDataRole (status (status_1_1 p')) = currentDataRole (status (status_1_1 p))
    \<and> currentPowerRole (status (status_1_1 p')) = currentPowerRole (status (status_1_1 p))
    \<and> currentMode_1_1 (status_1_1 p') = currentMode_1_1 (status_1_1 p)
    \<and> canChangeMode (status (status_1_1 p'))
    \<and> currentMode (status (status_1_1 p')) =
        (if version = V1_0 then currentMode (status (status_1_1 p)) else mode_1_0_NONE c)
    \<and> supportedModes (status (status_1_1 p')) = (if version = V1_0 then mode_1_0_DRP c else mode_1_0_NONE c)
    \<and> (\<not> snd port \<longrightarrow> \<not> canChangeDataRole (status (status_1_1 p')) \<and> \<not> canChangePowerRole (status (status_1_1 p')))"
  using assms by (auto simp: fill_flags_def Let_def split: prod.splits if_splits)

lemma fill_port_reports:
  assumes "data_DEVICE c \<noteq> data_NONE c" "mode_UFP c \<noteq> mode_NONE c"
    and "fill_port c env version port calls = (True, p, calls')"
  shows "port_reported c version port p"
proof -
  let ?get = "getCurrentRoleHelper c env (fst port) (snd port)"
  obtain st1 r1 c1 where 1: "?get POWER_ROLE 0 calls = (st1, r1, c1)" by (metis prod_cases3)
  obtain st2 r2 c2 where 2: "?get DATA_ROLE r1 c1 = (st2, r2, c2)" by (metis prod_cases3)
  define r2' where "r2' = (if snd port \<and> r2 = data_NONE c then data_DEVICE c else r2)"
  obtain st3 r3 c3 where 3: "?get MODE r2' c2 = (st3, r3, c3)" by (metis prod_cases3)
  define r3' where "r3' = (if snd port \<and> r3 = mode_NONE c then mode_UFP c else r3)"
  define q where "q = upd_status (\<lambda>s. s\<lparr>currentMode := r3'\<rparr>)
    ((\<lambda>p. p\<lparr>status_1_1 := (status_1_1 p)\<lparr>currentMode_1_1 := r3'\<rparr>\<rparr>)
      (upd_status (\<lambda>s. s\<lparr>currentDataRole := r2'\<rparr>) (upd_status (\<lambda>s. s\<lparr>currentPowerRole := r1\<rparr>)
        (upd_status (\<lambda>s. s\<lparr>portName := fst port\<rparr>) (new_status env)))))"
  have "fill_flags c env version port q c3 = (p, calls')"
    using assms(3) unfolding fill_port_def
    by (auto simp: 1 2 3 Let_def r2'_def [symmetric] r3'_def [symmetric] q_def [symmetric]
        split: if_splits prod.splits)
  note flags = fill_flags_reports [OF this]
  have q: "portName (status (status_1_1 q)) = fst port" "currentPowerRole (status (status_1_1 q)) = r1"
    "currentDataRole (status (status_1_1 q)) = r2'" "currentMode_1_1 (status_1_1 q) = r3'"
    "currentMode (status (status_1_1 q)) = r3'"
    by (simp_all add: q_def)
  have "\<not> snd port \<Longrightarrow> r1 = power_NONE c \<and> r2' = data_NONE c \<and> r3' = mode_NONE c"
    using 1 2 3 by (simp add: role_disconnected r2'_def r3'_def)
  moreover have "snd port \<Longrightarrow> r2' \<noteq> data_NONE c \<and> r3' \<noteq> mode_NONE c"
    using assms(1,2) by (simp add: r2'_def r3'_def)
  ultimately show ?thesis using flags by (auto simp: port_reported_def Let_def q)
qed

lemma fill_ports_reports:
  assumes "data_DEVICE c \<noteq> data_NONE c" "mode_UFP c \<noteq> mode_NONE c"
    and "fill_ports c env version ports calls = (True, ps, calls')"
  shows "list_all2 (port_reported c version) ports ps"
  using assms(3)
proof (induction ports arbitrary: ps calls)
  case (Cons port ports)
  then obtain p ps' calls1 where "fill_port c env version port calls = (True, p, calls1)"
    "fill_ports c env version ports calls1 = (True, ps', calls')" "ps = p # ps'"
    by (auto split: prod.splits if_splits)
  with Cons.IH fill_port_reports [OF assms(1,2)] show ?case by simp
qed simp

lemma list_all2_setD1: "list_all2 P xs ys \<Longrightarrow> x \<in> set xs \<Longrightarrow> \<exists>y \<in> set ys. P x y"
  by (induction rule: list_all2_induct) auto

lemma list_all2_setD2: "list_all2 P xs ys \<Longrightarrow> y \<in> set ys \<Longrightarrow> \<exists>x \<in> set xs. P x y"
  by (induction rule: list_all2_induct) auto

lemma fill_ports_length:
  "fill_ports c env version ports calls = (ok, ps, calls') \<Longrightarrow> length ps = length ports"
  by (induction ports arbitrary: ps calls) (auto split: prod.splits if_splits)

section \<open>Properties\<close>

text \<open>
  The active role is extracted from the form in which the kernel lists the roles,
  with the active one in brackets; a string without brackets is taken whole.
\<close>

theorem extract_role:
  assumes "CHR ''['' \<notin> set xs" "CHR '']'' \<notin> set xs" "CHR '']'' \<notin> set r"
    and "length (xs @ r) < 2 ^ 64 - 2"
  shows "extractRole (xs @ ''['' @ r @ '']'' @ ys) = r \<and> extractRole xs = xs"
proof -
  have f: "std_find (xs @ CHR ''['' # r @ CHR '']'' # ys) ''['' = of_nat (length xs)"
    by (rule std_find_first [OF assms(1)])
  have l: "std_find (xs @ CHR ''['' # r @ CHR '']'' # ys) '']'' = of_nat (length xs + 1 + length r)"
    using std_find_first [of "CHR '']''" "xs @ CHR ''['' # r" ys] assms(2,3) by (simp add: add.commute)
  have "unat (of_nat (length xs + 1 + length r) - of_nat (length xs) - 1 :: size_t) = length r"
    using assms(4) unat_of_nat_size [of "length r"] by (simp del: unat_of_nat_size)
  moreover have "of_nat (length xs) \<noteq> npos" "of_nat (length xs + 1 + length r) \<noteq> npos"
    using assms(4) by (intro of_nat_neq_npos; simp)+
  ultimately have "extractRole (xs @ CHR ''['' # r @ CHR '']'' # ys) = r"
    using assms(4) by (simp add: extractRole_def Let_def f l unat_Suc_size del: of_nat_add)
  moreover have "extractRole xs = xs"
    using assms(1) by (simp add: extractRole_def std_find_absent)
  ultimately show ?thesis by simp
qed

text \<open>
  The names of the power and data roles are read back as written: for every role the
  framework can ask for, \<open>convertRoletoString\<close> followed by the interpretation of the name in
  \<open>getCurrentRoleHelper\<close> is the identity.
\<close>

theorem role_names_roundtrip:
  assumes "role_type r = POWER_ROLE \<and> role_role r \<in> {power_SOURCE c, power_SINK c}
      \<or> role_type r = DATA_ROLE \<and> role_role r \<in> {data_HOST c, data_DEVICE c}"
  shows "role_of_name c (role_type r) (convertRoletoString c r) x = (SUCCESS, role_role r)"
  using assms by (auto simp: role_of_name_def convertRoletoString_def)

text \<open>
  The ports are found whatever the order of the directory. Reading the entries never
  builds a string from a null token; each port is listed once; it is marked connected exactly
  when a partner entry names it.
\<close>

theorem port_names_correct:
  "\<exists>names. read_entries es [] = Some names \<and> distinct (map fst names)
     \<and> map_of names = (\<lambda>k. if k \<in> partner_entries es then Some True
         else if k \<in> port_entries es then Some False else None)"
proof -
  obtain names where n: "read_entries es [] = Some names" using read_entries_total by blast
  from read_entries_spec [OF this] have "distinct (map fst names)"
    "map_of names k = (if k \<in> partner_entries es then Some True
        else if k \<in> port_entries es then Some False else None)" for k by auto
  with n show ?thesis by (intro exI [of _ names]) auto
qed


section \<open>Witnesses\<close>

definition aosp_usb :: usb_consts where
  "aosp_usb = \<lparr>power_NONE = 0, power_SOURCE = 1, power_SINK = 2, data_NONE = 0, data_HOST = 1, data_DEVICE = 2,
     mode_NONE = 0, mode_UFP = 1, mode_DFP = 2, mode_DRP = 3, mode_AUDIO_ACCESSORY = 4, mode_DEBUG_ACCESSORY = 8,
     mode_1_0_NONE = 0, mode_1_0_DRP = 3, FORCE_SINK = 1, protection_NONE = 0, detection_NOT_DETECTED = 2\<rparr>"

definition blank_status :: PortStatus where
  "blank_status = \<lparr>status_1_1 = \<lparr>status = \<lparr>portName = [], currentDataRole = 0, currentPowerRole = 0, currentMode = 0,
       canChangeMode = False, canChangeDataRole = False, canChangePowerRole = False, supportedModes = 0\<rparr>,
       supportedModes_1_1 = 0, currentMode_1_1 = 0\<rparr>,
     supportedContaminantProtectionModes = 0, supportsEnableContaminantPresenceProtection = False,
     contaminantProtectionStatus = 0, supportsEnableContaminantPresenceDetection = False,
     contaminantDetectionStatus = 0\<rparr>"

text \<open>One connected port whose role nodes read NONE, as on the device.\<close>

definition example_usb_env :: usb_env where
  "example_usb_env = \<lparr>node_content = (\<lambda>_ f. Some (''none'' @ [CHR 0x0A])), can_open_write = (\<lambda>_ _. True),
     fputs_ok = (\<lambda>_ _ _. True),
     dir_entries = (\<lambda>_ _. Some [(DT_LNK, ''port0-partner''), (DT_LNK, ''port0''), (OtherType, ''.'')]),
     dir_exists = (\<lambda>_ _. True), WriteStringToFile = (\<lambda>_ _ _. True), usb_GetProperty = (\<lambda>_ d. d),
     map_order = (\<lambda>m. m), new_status = blank_status\<rparr>"

theorem extract_role_witness: "extractRole ''source [sink]'' = ''sink''"
  using extract_role [of "''source ''" "''sink''" "[]"] by simp

theorem role_names_roundtrip_witness:
  "role_of_name aosp_usb DATA_ROLE (convertRoletoString aosp_usb \<lparr>role_type = DATA_ROLE, role_role = 2\<rparr>) 0 = (SUCCESS, 2)"
  using role_names_roundtrip [of "\<lparr>role_type = DATA_ROLE, role_role = 2\<rparr>" aosp_usb 0]
  by (simp add: aosp_usb_def)

lemma example_port_status:
  "case getPortStatusHelper aosp_usb example_usb_env V1_2 [] of
     (Some (st, ps), calls') \<Rightarrow> st = SUCCESS \<and> length ps = 1 | _ \<Rightarrow> False"
  by code_simp


end
