(* ===== verification/Usb.thy ===== *)
theory Usb
  imports Usb_Port
begin

text \<open>
  The USB HAL of \<open>src/usb/Usb.cpp\<close>: role switches, the worker thread with its uevents, and the
  framework callback. \<open>switchRole\<close> is cut at \<open>pthread_cond_timedwait\<close>, where it gives up
  \<open>mPartnerLock\<close> and other threads run, and \<open>setCallback\<close> at \<open>pthread_join\<close>; composed, the pieces are the
  whole methods, and in the theory \<open>Usb_Session\<close> they are the steps of its threads.
\<close>

section \<open>State\<close>

text \<open>A callback object, with the interfaces it can be cast to.\<close>

record usb_callback =
  castFrom_1_1 :: bool
  castFrom_1_2 :: bool

record usb =
  mCallback_1_0 :: "usb_callback option"
  mPartnerUp :: bool
  mRoleSwitchLock :: bool
  destroyThread :: bool
  usb_calls :: "usb_call list"

definition PULLUP_PATH :: string where "PULLUP_PATH = ''/config/usb_gadget/g1/UDC''"
definition UDC_PATH :: string where "UDC_PATH = ''/sys/class/udc/''"
definition USB_DATA_FILE :: string where "USB_DATA_FILE = ''cmode''"
definition kGadgetProp :: string where "kGadgetProp = ''sys.usb.controller''"
definition UEVENT_MSG_LEN :: int where "UEVENT_MSG_LEN = 2048"

abbreviation log_call :: "usb_call \<Rightarrow> usb \<Rightarrow> usb" where
  "log_call x s \<equiv> s\<lparr>usb_calls := usb_calls s @ [x]\<rparr>"

section \<open>Data signalling\<close>

definition write_string :: "usb_env \<Rightarrow> string \<Rightarrow> string \<Rightarrow> usb \<Rightarrow> bool \<times> usb" where
  "write_string env content path s =
     (WriteStringToFile env (usb_calls s) content path, log_call (WriteFile path content) s)"

definition enableUsbDataSignal :: "usb_env \<Rightarrow> bool \<Rightarrow> usb \<Rightarrow> bool \<times> usb" where
  "enableUsbDataSignal env enable s =
     (let kGadgetName = usb_GetProperty env kGadgetProp '''';
          USB_DATA_PATH = UDC_PATH @ kGadgetName @ ''/device/'' @ USB_DATA_FILE
      in if enable then
           let (b1, s) = write_string env ''1'' USB_DATA_PATH s;
               (b2, s) = write_string env kGadgetName PULLUP_PATH s
           in (b1 \<and> b2, s)
         else
           let (b1, s) = write_string env ''0'' USB_DATA_PATH s;
               (b2, s) = write_string env ''none'' PULLUP_PATH s
           in (b1 \<and> b2, s))"

section \<open>Role switches\<close>

text \<open>
  \<open>switchMode\<close> up to the wait and after each return from it: \<open>Some b\<close> is the result
  \<open>roleSwitch\<close>, \<open>None\<close> means (still) waiting for \<open>mPartnerCV\<close>.
\<close>

definition drp_usb :: "usb_env \<Rightarrow> string \<Rightarrow> usb \<Rightarrow> usb" where
  "drp_usb env name s = s\<lparr>usb_calls := switchToDrp env name (usb_calls s)\<rparr>"

definition switchMode_start ::
  "usb_consts \<Rightarrow> usb_env \<Rightarrow> string \<Rightarrow> PortRole \<Rightarrow> usb \<Rightarrow> bool option \<times> usb" where
  "switchMode_start c env name newRole s =
     (let filename = c_str (appendRoleNodeHelper (c_str name) (role_type newRole))
      in if filename = '''' then (Some False, s)
         else if \<not> can_open_write env (usb_calls s) filename
         then (Some False, drp_usb env (c_str name) (log_call (OpenForWrite filename) s))
         else
           let s = log_call (OpenForWrite filename) s;
               s = s\<lparr>mPartnerUp := False\<rparr>;
               role = c_str (convertRoletoString c newRole);
               ret = fputs_ok env (usb_calls s) filename role;
               s = log_call (Fputs filename role) s
           in if ret then (None, s) else (Some False, drp_usb env (c_str name) s))"

definition switchMode_wake :: "usb_env \<Rightarrow> string \<Rightarrow> bool \<Rightarrow> usb \<Rightarrow> bool option \<times> usb" where
  "switchMode_wake env name timedout s =
     (if timedout then (Some False, drp_usb env (c_str name) s)
      else if \<not> mPartnerUp s then (None, s)
      else (Some True, s))"

text \<open>The branch of \<open>switchRole\<close> for data and power roles.\<close>

definition switch_by_write :: "usb_consts \<Rightarrow> usb_env \<Rightarrow> string \<Rightarrow> PortRole \<Rightarrow> usb \<Rightarrow> bool \<times> usb" where
  "switch_by_write c env filename newRole s =
     (let opened = can_open_write env (usb_calls s) (c_str filename);
          s = log_call (OpenForWrite (c_str filename)) s
      in if \<not> opened then (False, s)
         else
           let role = c_str (convertRoletoString c newRole);
               ret = fputs_ok env (usb_calls s) (c_str filename) role;
               s = log_call (Fputs (c_str filename) role) s
           in if \<not> ret then (False, s)
              else
                let (r, written, calls) = readFile env filename '''' (usb_calls s);
                    s = s\<lparr>usb_calls := calls\<rparr>
                in if r \<noteq> 0 then (False, s)
                   else (extractRole written = convertRoletoString c newRole, s))"

definition switchRole_finish :: "string \<Rightarrow> PortRole \<Rightarrow> bool \<Rightarrow> usb \<Rightarrow> usb" where
  "switchRole_finish name newRole roleSwitch s =
     (let s = (if mCallback_1_0 s \<noteq> None
               then log_call (NotifyRoleSwitch name newRole (if roleSwitch then SUCCESS else ERROR)) s else s)
      in s\<lparr>mRoleSwitchLock := False\<rparr>)"

datatype switch_pc = SwIdle | SwWaiting string PortRole

definition switchRole_start ::
  "usb_consts \<Rightarrow> usb_env \<Rightarrow> string \<Rightarrow> PortRole \<Rightarrow> usb \<Rightarrow> switch_pc \<times> usb" where
  "switchRole_start c env name newRole s =
     (let filename = appendRoleNodeHelper (c_str name) (role_type newRole)
      in if filename = '''' then (SwIdle, s)
         else
           let s = s\<lparr>mRoleSwitchLock := True\<rparr>
           in if role_type newRole = MODE then
                (case switchMode_start c env name newRole s of
                   (None, s) \<Rightarrow> (SwWaiting name newRole, s)
                 | (Some roleSwitch, s) \<Rightarrow> (SwIdle, switchRole_finish name newRole roleSwitch s))
              else
                let (roleSwitch, s) = switch_by_write c env filename newRole s
                in (SwIdle, switchRole_finish name newRole roleSwitch s))"

definition switchRole_wake ::
  "usb_env \<Rightarrow> string \<Rightarrow> PortRole \<Rightarrow> bool \<Rightarrow> usb \<Rightarrow> switch_pc \<times> usb" where
  "switchRole_wake env name newRole timedout s =
     (case switchMode_wake env name timedout s of
        (None, s) \<Rightarrow> (SwWaiting name newRole, s)
      | (Some roleSwitch, s) \<Rightarrow> (SwIdle, switchRole_finish name newRole roleSwitch s))"

text \<open>
  The whole method, given how each wait returns: whether it timed out, and the value of
  \<open>mPartnerUp\<close> that the uevents have left by then. The list bounds the number of waits; with
  every wait used up and no decision the method has not returned.
\<close>

fun switchRole_waits ::
  "usb_env \<Rightarrow> (bool \<times> bool) list \<Rightarrow> switch_pc \<times> usb \<Rightarrow> switch_pc \<times> usb" where
  "switchRole_waits env ((timedout, up) # ws) (SwWaiting name newRole, s) =
     switchRole_waits env ws (switchRole_wake env name newRole timedout (s\<lparr>mPartnerUp := up\<rparr>))"
| "switchRole_waits env ws r = r"

definition switchRole ::
  "usb_consts \<Rightarrow> usb_env \<Rightarrow> (bool \<times> bool) list \<Rightarrow> string \<Rightarrow> PortRole \<Rightarrow> usb \<Rightarrow> usb option" where
  "switchRole c env waits name newRole s =
     (case switchRole_waits env waits (switchRole_start c env name newRole s) of
        (SwIdle, s) \<Rightarrow> Some s
      | (SwWaiting _ _, s) \<Rightarrow> None)"

section \<open>Status queries\<close>

text \<open>
  The new \<open>currentPortStatus_1_2\<close> and the state; \<open>None\<close> is the fault of the helper. The vector is
  empty at the call.
\<close>

definition queryVersionHelper :: "usb_consts \<Rightarrow> usb_env \<Rightarrow> usb \<Rightarrow> (PortStatus list \<times> usb) option" where
  "queryVersionHelper c env s =
     (case mCallback_1_0 s of
        None \<Rightarrow> Some ([], s)
      | Some cb \<Rightarrow>
          let version = (if castFrom_1_2 cb then V1_2 else if castFrom_1_1 cb then V1_1 else V1_0)
          in (case getPortStatusHelper c env version (usb_calls s) of
                (None, calls) \<Rightarrow> None
              | (Some (st, ps), calls) \<Rightarrow>
                  let s = s\<lparr>usb_calls := calls\<rparr>;
                      ps = (if castFrom_1_2 cb \<and> st = SUCCESS then snd (queryMoistureDetectionStatus c ps) else ps)
                  in Some (ps, log_call
                       (if castFrom_1_2 cb then NotifyPorts_1_2 ps st
                        else if castFrom_1_1 cb then NotifyPorts_1_1 (map status_1_1 ps) st
                        else NotifyPorts_1_0 (map (\<lambda>p. status (status_1_1 p)) ps) st) s)))"

definition queryPortStatus :: "usb_consts \<Rightarrow> usb_env \<Rightarrow> usb \<Rightarrow> usb option" where
  "queryPortStatus c env s = map_option snd (queryVersionHelper c env s)"

definition enableContaminantPresenceDetection ::
  "usb_consts \<Rightarrow> usb_env \<Rightarrow> string \<Rightarrow> bool \<Rightarrow> usb \<Rightarrow> usb option" where
  "enableContaminantPresenceDetection c env name enable s = map_option snd (queryVersionHelper c env s)"

definition enableContaminantPresenceProtection ::
  "usb_consts \<Rightarrow> usb_env \<Rightarrow> string \<Rightarrow> bool \<Rightarrow> usb \<Rightarrow> usb option" where
  "enableContaminantPresenceProtection c env name enable s = map_option snd (queryVersionHelper c env s)"

section \<open>Uevents\<close>

text \<open>\<open>std::regex_match\<close> against \<open>(add)(.*)(-partner)\<close>, where the dot excludes line terminators.\<close>

definition partner_added :: "string \<Rightarrow> bool" where
  "partner_added m \<longleftrightarrow>
     11 \<le> length m \<and> take 3 m = ''add'' \<and> drop (length m - 8) m = ''-partner''
     \<and> (\<forall>ch \<in> set (take (length m - 11) (drop 3 m)). ch \<noteq> CHR 0x0A \<and> ch \<noteq> CHR 0x0D)"

definition partner_dir :: "PortStatus \<Rightarrow> string" where
  "partner_dir p = c_str (''/sys/class/typec/'' @ c_str (portName (status (status_1_1 p))) @ ''-partner'')"

definition reset_port :: "usb_env \<Rightarrow> PortStatus \<Rightarrow> usb \<Rightarrow> usb" where
  "reset_port env p s =
     (let dp = dir_exists env (usb_calls s) (partner_dir p);
          s = log_call (OpenDir (partner_dir p)) s
      in if \<not> dp then drp_usb env (portName (status (status_1_1 p))) s else s)"

definition devtype_event :: "usb_consts \<Rightarrow> usb_env \<Rightarrow> usb \<Rightarrow> usb option" where
  "devtype_event c env s =
     (case queryVersionHelper c env s of
        None \<Rightarrow> None
      | Some (ps, s) \<Rightarrow>
          if \<not> mRoleSwitchLock s then Some (fold (reset_port env) ps s) else Some s)"

text \<open>
  The loop over the null-terminated strings of the message. The argument is the rest of the
  buffer from \<open>cp\<close> on; \<open>None\<close> is a read past its end (or the fault of the query).
\<close>

function uevent_loop :: "usb_consts \<Rightarrow> usb_env \<Rightarrow> string \<Rightarrow> usb \<Rightarrow> usb option" where
  "uevent_loop c env [] s = None"
| "uevent_loop c env (ch # cp) s =
     (if ch = CHR 0x00 then Some s
      else
        let m = c_str (ch # cp); rest = drop (Suc (length m)) (ch # cp)
        in if partner_added m
           then uevent_loop c env rest (log_call SignalPartner (s\<lparr>mPartnerUp := True\<rparr>))
           else if take (length ''DEVTYPE=typec_'') m = ''DEVTYPE=typec_'' then devtype_event c env s
           else uevent_loop c env rest s)"
  by pat_completeness auto
termination
  by (relation "measure (\<lambda>(c, env, cp, s). length cp)") auto

text \<open>\<open>n\<close> is the result of the receive and \<open>msg\<close> the bytes it stored.\<close>

definition uevent_event :: "usb_consts \<Rightarrow> usb_env \<Rightarrow> int \<Rightarrow> string \<Rightarrow> usb \<Rightarrow> usb option" where
  "uevent_event c env n msg s =
     (if n \<le> 0 then Some s
      else if n \<ge> UEVENT_MSG_LEN then Some s
      else uevent_loop c env (take (nat n) msg @ [CHR 0x00, CHR 0x00]) s)"

section \<open>The worker thread\<close>

definition sighandler :: "int \<Rightarrow> int \<Rightarrow> usb \<Rightarrow> usb" where
  "sighandler SIGUSR1 sig s = (if sig = SIGUSR1 then s\<lparr>destroyThread := True\<rparr> else s)"

text \<open>How \<open>epoll_wait\<close> returns: interrupted, failed, or with events, each given by its message.\<close>

datatype epoll_result = EpollIntr | EpollFailed | EpollReady "(int \<times> string) list"

fun handle_events :: "usb_consts \<Rightarrow> usb_env \<Rightarrow> (int \<times> string) list \<Rightarrow> usb \<Rightarrow> usb option" where
  "handle_events c env [] s = Some s"
| "handle_events c env ((n, msg) # es) s =
     (case uevent_event c env n msg s of None \<Rightarrow> None | Some s \<Rightarrow> handle_events c env es s)"

text \<open>
  One round per element of the list; its flag says whether the signal arrived during the wait.
  The first component of the result says whether the loop has ended.
\<close>

fun work_loop :: "usb_consts \<Rightarrow> usb_env \<Rightarrow> (bool \<times> epoll_result) list \<Rightarrow> usb \<Rightarrow> (bool \<times> usb) option" where
  "work_loop c env [] s = Some (destroyThread s, s)"
| "work_loop c env ((sig, e) # es) s =
     (if destroyThread s then Some (True, s)
      else
        let s = (if sig then s\<lparr>destroyThread := True\<rparr> else s)
        in case e of
             EpollIntr \<Rightarrow> work_loop c env es s
           | EpollFailed \<Rightarrow> Some (True, s)
           | EpollReady ms \<Rightarrow>
               (case handle_events c env ms s of None \<Rightarrow> None | Some s \<Rightarrow> work_loop c env es s))"

text \<open>
  \<open>work\<close> up to its loop, with the results of \<open>uevent_open_socket\<close>, \<open>epoll_create1\<close> and \<open>epoll_ctl\<close>, and what
  it closes at the end; the flag says whether the loop is entered.
\<close>

definition work_close :: "usb \<Rightarrow> usb" where
  "work_close s = log_call CloseEpoll (log_call CloseSocket s)"

definition work_open :: "bool \<Rightarrow> bool \<Rightarrow> bool \<Rightarrow> usb \<Rightarrow> bool \<times> usb" where
  "work_open socket_ok epoll_ok ctl_ok s =
     (if \<not> socket_ok then (False, s)
      else
        let s = log_call OpenSocket s
        in if \<not> epoll_ok then (False, log_call CloseSocket s)
           else
             let s = log_call EpollCreate s
             in if \<not> ctl_ok then (False, work_close s) else (True, s))"

text \<open>The whole thread; the inner \<open>None\<close> is a loop that has not ended.\<close>

definition work ::
  "usb_consts \<Rightarrow> usb_env \<Rightarrow> bool \<Rightarrow> bool \<Rightarrow> bool \<Rightarrow> (bool \<times> epoll_result) list \<Rightarrow> usb \<Rightarrow> usb option option" where
  "work c env socket_ok epoll_ok ctl_ok es s =
     (case work_open socket_ok epoll_ok ctl_ok s of
        (False, s) \<Rightarrow> Some (Some s)
      | (True, s) \<Rightarrow>
          (case work_loop c env es s of
             None \<Rightarrow> None
           | Some (False, s) \<Rightarrow> Some None
           | Some (True, s) \<Rightarrow> Some (Some (work_close s))))"

section \<open>The framework callback\<close>

text \<open>
  \<open>kill_ok\<close> and \<open>create_ok\<close> are the results of \<open>pthread_kill\<close> and \<open>pthread_create\<close>. The method up to the
  join, with what it does to the worker: nothing, a signal that did not or did reach it, or a new
  thread; after a signal that did, the join follows.
\<close>

datatype callback_outcome = CbDone | CbNotKilled | CbJoin | CbCreated

definition setCallback_begin :: "bool \<Rightarrow> bool \<Rightarrow> usb_callback option \<Rightarrow> usb \<Rightarrow> callback_outcome \<times> usb" where
  "setCallback_begin kill_ok create_ok callback s =
     (if (mCallback_1_0 s = None \<and> callback = None) \<or> (mCallback_1_0 s \<noteq> None \<and> callback \<noteq> None)
      then (CbDone, s\<lparr>mCallback_1_0 := callback\<rparr>)
      else
        let s = s\<lparr>mCallback_1_0 := callback\<rparr>
        in if mCallback_1_0 s = None then (if kill_ok then (CbJoin, s) else (CbNotKilled, s))
           else
             let s = s\<lparr>destroyThread := False\<rparr>
             in if create_ok then (CbCreated, log_call ThreadCreate s) else (CbDone, s\<lparr>mCallback_1_0 := None\<rparr>))"

text \<open>The whole method, when the worker handles the signal and the join returns.\<close>

definition setCallback :: "bool \<Rightarrow> bool \<Rightarrow> usb_callback option \<Rightarrow> usb \<Rightarrow> usb" where
  "setCallback kill_ok create_ok callback s =
     (case setCallback_begin kill_ok create_ok callback s of
        (CbJoin, s) \<Rightarrow> log_call ThreadJoin (s\<lparr>destroyThread := True\<rparr>)
      | (_, s) \<Rightarrow> s)"

text \<open>The constructor; each argument is whether a \<open>pthread\<close> call failed, \<open>None\<close> is \<open>abort\<close>.\<close>

definition Usb_constructor :: "bool \<Rightarrow> bool \<Rightarrow> bool \<Rightarrow> bool \<Rightarrow> usb option" where
  "Usb_constructor attr_init setclock cond_init attr_destroy =
     (if attr_init \<or> setclock \<or> cond_init \<or> attr_destroy then None
      else Some \<lparr>mCallback_1_0 = None, mPartnerUp = False, mRoleSwitchLock = False,
                 destroyThread = False, usb_calls = []\<rparr>)"

section \<open>Lemmas: what each operation adds to the log\<close>

text \<open>The partner was signalled after the mode was written.\<close>

definition partner_after_write :: "usb_consts \<Rightarrow> string \<Rightarrow> PortRole \<Rightarrow> usb_call list \<Rightarrow> bool" where
  "partner_after_write c name r calls \<longleftrightarrow>
     (\<exists>xs ys. calls = xs @ Fputs (c_str (appendRoleNodeHelper (c_str name) MODE)) (c_str (convertRoletoString c r)) # ys
        \<and> SignalPartner \<in> set ys)"

definition mode_written :: "usb_consts \<Rightarrow> string \<Rightarrow> PortRole \<Rightarrow> usb_call list \<Rightarrow> bool" where
  "mode_written c name r calls \<longleftrightarrow>
     Fputs (c_str (appendRoleNodeHelper (c_str name) MODE)) (c_str (convertRoletoString c r)) \<in> set calls"

lemma switchToDrp_extends: "\<exists>xs. switchToDrp env name calls = calls @ xs \<and> SignalPartner \<notin> set xs"
  by (auto simp: switchToDrp_def Let_def)

lemma partner_after_append: "partner_after_write c name r calls \<Longrightarrow> partner_after_write c name r (calls @ xs)"
  unfolding partner_after_write_def by fastforce

lemma partner_after_signal:
  "mode_written c name r calls \<Longrightarrow> partner_after_write c name r (calls @ SignalPartner # xs)"
  unfolding mode_written_def partner_after_write_def
  by (auto simp: in_set_conv_decomp [where xs = calls]) fastforce

lemma mode_written_append: "mode_written c name r calls \<Longrightarrow> mode_written c name r (calls @ xs)"
  by (simp add: mode_written_def)

text \<open>What the other threads may do to a waiting role switch.\<close>

definition quiet :: "usb \<Rightarrow> usb \<Rightarrow> bool" where
  "quiet s t \<longleftrightarrow> mRoleSwitchLock t = mRoleSwitchLock s \<and> mPartnerUp t = mPartnerUp s
     \<and> (\<exists>xs. usb_calls t = usb_calls s @ xs)"

lemma quiet_refl [simp]: "quiet s s"
  by (simp add: quiet_def)

lemma quiet_trans: "quiet s t \<Longrightarrow> quiet t u \<Longrightarrow> quiet s u"
  by (auto simp: quiet_def)

lemma quiet_log: "quiet s (log_call x s)"
  by (simp add: quiet_def)

lemma quiet_drp: "quiet s (drp_usb env name s)"
  using switchToDrp_extends [of env name "usb_calls s"] by (auto simp: quiet_def drp_usb_def)

lemma quiet_reset_port: "quiet s (reset_port env p s)"
  unfolding reset_port_def Let_def using quiet_trans [OF quiet_log quiet_drp] quiet_log by simp

lemma quiet_reset_ports: "quiet s (fold (reset_port env) ps s)"
  by (induction ps arbitrary: s) (auto intro: quiet_trans [OF quiet_reset_port])

text \<open>Queries only read nodes and list directories.\<close>

fun is_read :: "usb_call \<Rightarrow> bool" where
  "is_read (ReadNode _) = True"
| "is_read (ListDir _) = True"
| "is_read _ = False"

fun no_write :: "usb_call \<Rightarrow> bool" where
  "no_write (OpenForWrite _) = False"
| "no_write (Fputs _ _) = False"
| "no_write _ = True"

lemma is_read_no_write: "list_all is_read xs \<Longrightarrow> list_all no_write xs \<and> SignalPartner \<notin> set xs"
proof (induction xs)
  case (Cons x xs)
  then show ?case by (cases x) auto
qed simp

lemma readFile_extends:
  "readFile env f x calls = (r, y, calls') \<Longrightarrow> \<exists>xs. calls' = calls @ xs \<and> list_all is_read xs"
  by (auto simp: readFile_def Let_def split: option.splits)

lemma role_extends:
  "getCurrentRoleHelper c env n b ty x calls = (st, y, calls') \<Longrightarrow> \<exists>xs. calls' = calls @ xs \<and> list_all is_read xs"
  unfolding getCurrentRoleHelper_def read_role_def getAccessoryConnected_def Let_def
  by (fastforce split: option.splits prod.splits if_splits PortRoleType.splits dest: readFile_extends)

lemma can_switch_extends: "canSwitchRoleHelper env n ty calls = (b, calls') \<Longrightarrow> \<exists>xs. calls' = calls @ xs \<and> list_all is_read xs"
  unfolding canSwitchRoleHelper_def Let_def by (auto split: prod.splits dest: readFile_extends)

lemma fill_port_extends: "fill_port c env v port calls = (ok, p, calls') \<Longrightarrow> \<exists>xs. calls' = calls @ xs \<and> list_all is_read xs"
  unfolding fill_port_def fill_flags_def Let_def
  by (auto split: prod.splits if_splits dest!: role_extends can_switch_extends)

lemma fill_ports_extends: "fill_ports c env v ports calls = (ok, ps, calls') \<Longrightarrow> \<exists>xs. calls' = calls @ xs \<and> list_all is_read xs"
proof (induction ports arbitrary: ok ps calls)
  case (Cons port ports)
  then show ?case by (fastforce split: prod.splits if_splits dest!: fill_port_extends)
qed simp

lemma status_extends: "getPortStatusHelper c env v calls = (res, calls') \<Longrightarrow> \<exists>xs. calls' = calls @ xs \<and> list_all is_read xs"
  unfolding getPortStatusHelper_def getTypeCPortNamesHelper_def Let_def
  by (auto split: prod.splits option.splits if_splits dest!: fill_ports_extends)

lemma quiet_query: "queryVersionHelper c env s = Some (ps, t) \<Longrightarrow> quiet s t"
  unfolding queryVersionHelper_def quiet_def Let_def
  by (auto split: option.splits prod.splits dest!: status_extends)

lemma quiet_devtype: "devtype_event c env s = Some t \<Longrightarrow> quiet s t"
  unfolding devtype_event_def
  by (auto split: option.splits if_splits intro: quiet_trans [OF quiet_query quiet_reset_ports] quiet_query)

text \<open>What a uevent does to the state, as seen by a waiting role switch.\<close>

definition disturbs :: "usb \<Rightarrow> usb \<Rightarrow> bool" where
  "disturbs s t \<longleftrightarrow> mRoleSwitchLock t = mRoleSwitchLock s
     \<and> (\<exists>xs. usb_calls t = usb_calls s @ xs \<and> (mPartnerUp t = mPartnerUp s \<or> SignalPartner \<in> set xs)
         \<and> (mRoleSwitchLock s \<longrightarrow> list_all no_write xs))"

lemma quiet_disturbs: "quiet s t \<Longrightarrow> \<not> mRoleSwitchLock s \<Longrightarrow> disturbs s t"
  by (auto simp: quiet_def disturbs_def)

lemma disturbs_trans: "disturbs s t \<Longrightarrow> disturbs t u \<Longrightarrow> disturbs s u"
  unfolding disturbs_def by fastforce

lemma disturbs_query: "queryVersionHelper c env s = Some (ps, t) \<Longrightarrow> disturbs s t"
  unfolding queryVersionHelper_def disturbs_def Let_def
  by (auto split: option.splits prod.splits dest!: status_extends is_read_no_write)

lemma disturbs_devtype: "devtype_event c env s = Some t \<Longrightarrow> disturbs s t"
proof (cases "mRoleSwitchLock s")
  case True
  assume "devtype_event c env s = Some t"
  then obtain ps where q: "queryVersionHelper c env s = Some (ps, t)"
    using True quiet_query
    by (fastforce simp: devtype_event_def quiet_def split: option.splits if_splits)
  then show ?thesis by (rule disturbs_query)
next
  case False
  assume "devtype_event c env s = Some t"
  with False show ?thesis by (blast intro: quiet_disturbs quiet_devtype)
qed

lemma disturbs_uevent_loop: "uevent_loop c env cp s = Some t \<Longrightarrow> disturbs s t"
proof (induction c env cp s rule: uevent_loop.induct)
  case (2 c env ch cp s)
  have "disturbs s (log_call SignalPartner (s\<lparr>mPartnerUp := True\<rparr>))"
    by (simp add: disturbs_def)
  with 2 show ?case
    by (auto simp: Let_def split: if_splits intro: disturbs_trans disturbs_devtype) (simp add: disturbs_def)
qed simp

lemma disturbs_uevent: "uevent_event c env n msg s = Some t \<Longrightarrow> disturbs s t"
  unfolding uevent_event_def
  by (auto split: if_splits dest: disturbs_uevent_loop) (auto simp: disturbs_def)

lemma switch_by_write_lock:
  "switch_by_write c env f r s = (b, t) \<Longrightarrow> mRoleSwitchLock t = mRoleSwitchLock s"
  by (auto simp: switch_by_write_def Let_def split: if_splits prod.splits)

lemma switchMode_start_cases:
  assumes "switchMode_start c env name r s = (res, t)" and "role_type r = MODE"
  shows "mRoleSwitchLock t = mRoleSwitchLock s
    \<and> (res = None \<longrightarrow> \<not> mPartnerUp t \<and> mode_written c name r (usb_calls t))"
  using assms by (auto simp: switchMode_start_def Let_def drp_usb_def mode_written_def split: if_splits)

lemma finish_unlocks [simp]: "\<not> mRoleSwitchLock (switchRole_finish name r b s)"
  by (simp add: switchRole_finish_def)

section \<open>Lemmas: uevents always end\<close>

lemma names_total: "\<exists>x calls'. getTypeCPortNamesHelper env calls = (Some x, calls')"
  using read_entries_total by (auto simp: getTypeCPortNamesHelper_def Let_def split: option.splits)

lemma status_total: "\<exists>x calls'. getPortStatusHelper c env v calls = (Some x, calls')"
proof -
  obtain st names calls1 where "getTypeCPortNamesHelper env calls = (Some (st, names), calls1)"
    using names_total [of env calls] by auto
  then show ?thesis by (auto simp: getPortStatusHelper_def split: prod.splits)
qed

lemma query_total: "\<exists>r. queryVersionHelper c env s = Some r"
proof (cases "mCallback_1_0 s")
  case (Some cb)
  define v where "v = (if castFrom_1_2 cb then V1_2 else if castFrom_1_1 cb then V1_1 else V1_0)"
  obtain st ps calls where "getPortStatusHelper c env v (usb_calls s) = (Some (st, ps), calls)"
    using status_total [of c env v "usb_calls s"] by auto
  with Some show ?thesis by (simp add: queryVersionHelper_def v_def [symmetric] Let_def)
qed (simp add: queryVersionHelper_def)

lemma devtype_total: "\<exists>t. devtype_event c env s = Some t"
  using query_total [of c env s] by (auto simp: devtype_event_def)

lemma rest_of_message:
  "\<exists>ys. drop (Suc (length (c_str (xs @ [CHR 0x00, CHR 0x00])))) (xs @ [CHR 0x00, CHR 0x00])
     \<in> {[CHR 0x00], ys @ [CHR 0x00, CHR 0x00]} \<and> length ys \<le> length xs - 1"
proof (cases "CHR 0x00 \<in> set xs")
  case True
  then obtain as bs where x: "xs = as @ CHR 0x00 # bs" "CHR 0x00 \<notin> set as" by (metis split_list_first)
  then have "c_str (xs @ [CHR 0x00, CHR 0x00]) = as" by (simp add: c_str_append) (simp add: c_str_def)
  with x show ?thesis by (intro exI [of _ bs]) simp
next
  case False
  then have "c_str (xs @ [CHR 0x00, CHR 0x00]) = xs" by (simp add: c_str_append) (simp add: c_str_def)
  then show ?thesis by (intro exI [of _ "[]"]) simp
qed

lemma uevent_loop_total: "\<exists>t. uevent_loop c env (xs @ [CHR 0x00, CHR 0x00]) s = Some t"
proof (induction "length xs" arbitrary: xs s rule: less_induct)
  case less
  show ?case
  proof (cases "xs = [] \<or> hd xs = CHR 0x00")
    case True
    then show ?thesis by (cases xs) auto
  next
    case False
    then obtain ch cp where x: "xs = ch # cp" "ch \<noteq> CHR 0x00" by (cases xs) auto
    let ?buf = "xs @ [CHR 0x00, CHR 0x00]"
    let ?rest = "drop (Suc (length (c_str ?buf))) ?buf"
    obtain ys where ys: "?rest \<in> {[CHR 0x00], ys @ [CHR 0x00, CHR 0x00]}" "length ys \<le> length xs - 1"
      using rest_of_message [of xs] by blast
    have "\<exists>t. uevent_loop c env ?rest u = Some t" for u
      using ys less [of ys] x by auto
    then show ?thesis using x devtype_total [of c env s]
      by (simp add: Let_def)
  qed
qed

section \<open>Properties\<close>

text \<open>
  C21: handling a uevent never reads past the message buffer and never fails, whatever bytes the
  kernel sends: the two null bytes stored after the message end every scan.
\<close>

theorem uevent_never_faults: "\<exists>t. uevent_event c env n msg s = Some t"
  using uevent_loop_total by (simp add: uevent_event_def)

text \<open>
  C28: a data or power role switch is reported exactly once, at the end and with the lock
  released; it is a success exactly when the node could be opened and written and then read
  back with the requested role as its active role.
\<close>

theorem role_switch_by_write:
  assumes ty: "role_type r = DATA_ROLE \<or> role_type r = POWER_ROLE" and cb: "mCallback_1_0 s \<noteq> None"
    and f: "f = c_str (appendRoleNodeHelper (c_str name) (role_type r))"
    and h: "h1 = usb_calls s @ [OpenForWrite f]" "h2 = h1 @ [Fputs f (convertRoletoString c r)]"
  shows "\<exists>t ok. switchRole c env waits name r s = Some t \<and> \<not> mRoleSwitchLock t
    \<and> last (usb_calls t) = NotifyRoleSwitch name r (if ok then SUCCESS else ERROR)
    \<and> list_all (\<lambda>x. \<forall>n r st. x \<noteq> NotifyRoleSwitch n r st) (drop (length (usb_calls s)) (butlast (usb_calls t)))
    \<and> (ok \<longleftrightarrow> can_open_write env (usb_calls s) f \<and> fputs_ok env h1 f (convertRoletoString c r)
          \<and> (\<exists>content. node_content env h2 f = Some content
              \<and> extractRole (c_str (takeWhile (\<lambda>ch. ch \<noteq> CHR 0x0A) content)) = convertRoletoString c r))"
proof -
  let ?f = "appendRoleNodeHelper (c_str name) (role_type r)"
  have ne: "?f \<noteq> ''''" "role_type r \<noteq> MODE" using ty by auto
  have cs: "c_str (convertRoletoString c r) = convertRoletoString c r"
    by (rule c_str_id) (simp add: convertRoletoString_def)
  let ?s = "s\<lparr>mRoleSwitchLock := True\<rparr>"
  obtain ok u where w: "switch_by_write c env ?f r ?s = (ok, u)" by fastforce
  have start: "switchRole_start c env name r s = (SwIdle, switchRole_finish name r ok u)"
    using ne w by (simp add: switchRole_start_def Let_def)
  have empty: "c_str [] = []" by (simp add: c_str_def)
  have ok: "ok \<longleftrightarrow> can_open_write env (usb_calls s) f \<and> fputs_ok env h1 f (convertRoletoString c r)
      \<and> (\<exists>content. node_content env h2 f = Some content
          \<and> extractRole (c_str (takeWhile (\<lambda>ch. ch \<noteq> CHR 0x0A) content)) = convertRoletoString c r)"
    using w by (auto simp: switch_by_write_def Let_def readFile_def f h cs empty
        split: if_splits option.splits)
  have u: "mCallback_1_0 u = mCallback_1_0 s" "\<exists>xs. usb_calls u = usb_calls s @ xs
      \<and> list_all (\<lambda>x. \<forall>n r st. x \<noteq> NotifyRoleSwitch n r st) xs"
    using w by (auto simp: switch_by_write_def Let_def readFile_def split: if_splits option.splits)
  then obtain xs where xs: "usb_calls u = usb_calls s @ xs"
    "list_all (\<lambda>x. \<forall>n r st. x \<noteq> NotifyRoleSwitch n r st) xs" by blast
  let ?t = "switchRole_finish name r ok u"
  have "switchRole c env waits name r s = Some ?t" by (simp add: switchRole_def start)
  moreover have "usb_calls ?t = usb_calls u @ [NotifyRoleSwitch name r (if ok then SUCCESS else ERROR)]"
    using cb u(1) by (simp add: switchRole_finish_def Let_def)
  then have "last (usb_calls ?t) = NotifyRoleSwitch name r (if ok then SUCCESS else ERROR)"
    "butlast (usb_calls ?t) = usb_calls s @ xs" using xs(1) by (simp_all add: butlast_append)
  ultimately show ?thesis using ok xs(2)
    by (intro exI [of _ ?t] exI [of _ ok] conjI) (assumption | simp)+
qed

text \<open>
  A mode switch that has been written ends with the first wait that times out or finds the
  partner up, after any number of other wake-ups, with the result of that wait; as long as the
  waits only return early it does not end (each wait starts a new time-out).
\<close>

theorem mode_switch_waits:
  assumes start: "switchRole_start c env name r s = (SwWaiting name r, u)" and cb: "mCallback_1_0 u \<noteq> None"
    and dec: "timedout \<or> up"
  shows "switchRole c env (replicate k (False, False)) name r s = None
    \<and> (\<exists>t. switchRole c env (replicate k (False, False) @ (timedout, up) # ws) name r s = Some t
        \<and> \<not> mRoleSwitchLock t
        \<and> last (usb_calls t) = NotifyRoleSwitch name r (if timedout then ERROR else SUCCESS))"
proof -
  have early: "switchRole_waits env (replicate k (False, False) @ ws) (SwWaiting name r, v) =
      switchRole_waits env ws (SwWaiting name r, if k = 0 then v else v\<lparr>mPartnerUp := False\<rparr>)" for v k ws
    by (induction k arbitrary: v) (simp_all add: switchRole_wake_def switchMode_wake_def)
  have "switchRole c env (replicate k (False, False)) name r s = None"
    using early [of k "[]" u] by (simp add: switchRole_def start)
  moreover define v where "v = (if k = 0 then u else u\<lparr>mPartnerUp := False\<rparr>)"
  define t where "t = snd (switchRole_wake env name r timedout (v\<lparr>mPartnerUp := up\<rparr>))"
  have "mCallback_1_0 v = mCallback_1_0 u" by (simp add: v_def)
  with cb dec have t: "switchRole_wake env name r timedout (v\<lparr>mPartnerUp := up\<rparr>) = (SwIdle, t)"
    "last (usb_calls t) = NotifyRoleSwitch name r (if timedout then ERROR else SUCCESS)" "\<not> mRoleSwitchLock t"
    by (auto simp: t_def switchRole_wake_def switchMode_wake_def switchRole_finish_def drp_usb_def Let_def)
  moreover have "switchRole c env (replicate k (False, False) @ (timedout, up) # ws) name r s = Some t"
    using early [of k "(timedout, up) # ws" u] t(1) by (simp add: switchRole_def start v_def)
  ultimately show ?thesis by blast
qed

text \<open>The number of worker threads: created and not yet joined.\<close>
definition workers :: "usb_call list \<Rightarrow> int" where
  "workers calls = int (count_list calls ThreadCreate) - int (count_list calls ThreadJoin)"

text \<open>
  One worker per callback. After any sequence of complete callback changes, with threads that may fail
  to start, exactly one worker has been created and not joined when a callback is set, and none otherwise.
\<close>

theorem one_worker:
  assumes "Usb_constructor False False False False = Some s"
    and "t = fold (\<lambda>(cb, create_ok). setCallback True create_ok cb) cbs s"
  shows "workers (usb_calls t) = (if mCallback_1_0 t = None then 0 else 1)
    \<and> (mCallback_1_0 t \<noteq> None \<longrightarrow> \<not> destroyThread t)"
proof -
  let ?P = "\<lambda>s. workers (usb_calls s) = (if mCallback_1_0 s = None then 0 else 1)
      \<and> (mCallback_1_0 s \<noteq> None \<longrightarrow> \<not> destroyThread s)"
  have "?P (setCallback True ok cb u)" if "?P u" for ok cb u
    using that by (auto simp: setCallback_def setCallback_begin_def Let_def workers_def split: if_splits)
  moreover have "?P s" using assms(1) by (auto simp: Usb_constructor_def workers_def)
  ultimately have "?P (fold (\<lambda>(cb, create_ok). setCallback True create_ok cb) cbs s)"
    by (induction cbs arbitrary: s) auto
  with assms(2) show ?thesis by blast
qed

section \<open>Witnesses\<close>

definition fresh_usb :: usb where
  "fresh_usb = \<lparr>mCallback_1_0 = None, mPartnerUp = False, mRoleSwitchLock = False, destroyThread = False, usb_calls = []\<rparr>"

definition to_ufp :: PortRole where
  "to_ufp = \<lparr>role_type = MODE, role_role = 1\<rparr>"

definition example_cb :: usb_callback where
  "example_cb = \<lparr>castFrom_1_1 = True, castFrom_1_2 = True\<rparr>"

text \<open>The HAL with a callback and a worker, then in the middle of a mode switch, then with the partner back.\<close>

definition served_usb :: usb where
  "served_usb = fresh_usb\<lparr>mCallback_1_0 := Some example_cb, usb_calls := [ThreadCreate, OpenSocket, EpollCreate]\<rparr>"

definition switching_usb :: usb where
  "switching_usb = served_usb\<lparr>mRoleSwitchLock := True,
     usb_calls := [ThreadCreate, OpenSocket, EpollCreate, OpenForWrite ''/sys/class/typec/port0/port_type'',
       Fputs ''/sys/class/typec/port0/port_type'' ''sink'']\<rparr>"

definition partner_usb :: usb where
  "partner_usb = log_call SignalPartner (switching_usb\<lparr>mPartnerUp := True\<rparr>)"

lemmas example_usb_defs = partner_usb_def switching_usb_def served_usb_def fresh_usb_def

lemma example_usb_start:
  "switchRole_start aosp_usb example_usb_env ''port0'' to_ufp served_usb = (SwWaiting ''port0'' to_ufp, switching_usb)"
  by (simp add: switchRole_start_def switchMode_start_def Let_def
      to_ufp_def aosp_usb_def example_usb_env_def example_usb_defs convertRoletoString_def c_str_def)

lemma example_partner_added:
  "uevent_event aosp_usb example_usb_env 24 ''add@/devices/p0-partner'' switching_usb = Some partner_usb"
  by (simp add: uevent_event_def UEVENT_MSG_LEN_def partner_added_def c_str_def partner_usb_def Let_def)

theorem role_switch_by_write_witness:
  "\<exists>t. switchRole aosp_usb example_usb_env [] ''port0'' \<lparr>role_type = DATA_ROLE, role_role = 2\<rparr> served_usb = Some t
     \<and> last (usb_calls t) = NotifyRoleSwitch ''port0'' \<lparr>role_type = DATA_ROLE, role_role = 2\<rparr> ERROR"
proof -
  let ?r = "\<lparr>role_type = DATA_ROLE, role_role = 2\<rparr> :: PortRole"
  have cb: "mCallback_1_0 served_usb \<noteq> None"
    by (simp add: served_usb_def)
  have none: "extractRole (c_str (takeWhile (\<lambda>ch. ch \<noteq> CHR 0x0A) (''none'' @ [CHR 0x0A]))) \<noteq> convertRoletoString aosp_usb ?r"
    by (simp add: extractRole_def std_find_char c_str_def convertRoletoString_def aosp_usb_def)
  have "role_type ?r = DATA_ROLE \<or> role_type ?r = POWER_ROLE" by simp
  from role_switch_by_write [OF this cb refl refl refl, where name = "''port0''" and c = aosp_usb
      and env = example_usb_env and waits = "[]"] none
  show ?thesis by (auto simp: example_usb_env_def)
qed

theorem mode_switch_waits_witness:
  "\<exists>t. switchRole aosp_usb example_usb_env [(False, False), (True, False)] ''port0'' to_ufp served_usb = Some t
     \<and> last (usb_calls t) = NotifyRoleSwitch ''port0'' to_ufp ERROR"
  using mode_switch_waits [OF example_usb_start, of True False 1 "[]"] by (auto simp: example_usb_defs)

theorem one_worker_witness:
  "workers (usb_calls (fold (\<lambda>(cb, create_ok). setCallback True create_ok cb)
     [(Some example_cb, False), (Some example_cb, True), (None, True)] fresh_usb)) = 0"
proof -
  have "Usb_constructor False False False False = Some fresh_usb" by (simp add: Usb_constructor_def fresh_usb_def)
  from one_worker [OF this refl, of "[(Some example_cb, False), (Some example_cb, True), (None, True)]"]
  show ?thesis by (simp add: setCallback_def setCallback_begin_def fresh_usb_def)
qed

end
