(* ===== verification/Usb_Session.thy ===== *)
theory Usb_Session
  imports Usb
begin

text \<open>
  The threads of the USB HAL of \<open>src/usb/Usb.cpp\<close>: the binder threads that run requests, the role switch
  among them that waits for a partner, the worker thread with its loop in \<open>work\<close>, the signal that
  \<open>setCallback\<close> sends to it and the join that follows. Calls of \<open>setCallback\<close> do not overlap here;
  \<open>overlapping_callbacks\<close> shows what happens when they do.
\<close>

section \<open>The threads together\<close>

text \<open>
  Where the worker is: before its loop, at the test of \<open>destroyThread\<close>, past the test but not yet in
  \<open>epoll_wait\<close>, in \<open>epoll_wait\<close>, with messages to handle, ended.
\<close>

datatype worker_pc = WkStart | WkTest | WkEnter | WkWait | WkEvents "(int \<times> string) list" | WkEnded

text \<open>
  \<open>worker\<close> is the thread of \<open>mPoll\<close> until it is joined; \<open>signalled\<close> says that SIGUSR1 is pending for it,
  \<open>joining\<close> that a call of \<open>setCallback\<close> waits in \<open>pthread_join\<close>.
\<close>

record usb_system =
  hal :: usb
  switcher :: switch_pc
  worker :: "worker_pc option"
  signalled :: bool
  joining :: bool

text \<open>
  Requests of the framework. A role switch holds \<open>mRoleSwitchLock\<close> to its end, so only one runs; the
  other requests happen while it waits. A signal cannot be sent only to a thread that has ended.
\<close>

fun new_worker :: "callback_outcome \<Rightarrow> worker_pc option \<Rightarrow> worker_pc option" where
  "new_worker CbCreated w = Some WkStart"
| "new_worker CbNotKilled w = None"
| "new_worker _ w = w"

inductive client_step :: "usb_consts \<Rightarrow> usb_env \<Rightarrow> usb_system \<Rightarrow> usb_system \<Rightarrow> bool"
  for c :: usb_consts and env :: usb_env
  where
    start: "\<not> mRoleSwitchLock (hal p) \<Longrightarrow> switcher p = SwIdle \<Longrightarrow>
      switchRole_start c env name r (hal p) = (pc, s) \<Longrightarrow>
      client_step c env p (p\<lparr>hal := s, switcher := pc\<rparr>)"
  | wake: "switcher p = SwWaiting name r \<Longrightarrow>
      switchRole_wake env name r timedout (hal p) = (pc, s) \<Longrightarrow>
      client_step c env p (p\<lparr>hal := s, switcher := pc\<rparr>)"
  | query: "queryPortStatus c env (hal p) = Some s \<Longrightarrow> client_step c env p (p\<lparr>hal := s\<rparr>)"
  | detection: "enableContaminantPresenceDetection c env name on (hal p) = Some s \<Longrightarrow>
      client_step c env p (p\<lparr>hal := s\<rparr>)"
  | protection: "enableContaminantPresenceProtection c env name on (hal p) = Some s \<Longrightarrow>
      client_step c env p (p\<lparr>hal := s\<rparr>)"
  | data_signal: "enableUsbDataSignal env on (hal p) = (b, s) \<Longrightarrow> client_step c env p (p\<lparr>hal := s\<rparr>)"
  | callback: "\<not> joining p \<Longrightarrow> kill_ok \<or> worker p = Some WkEnded \<Longrightarrow>
      setCallback_begin kill_ok create_ok cb (hal p) = (out, s) \<Longrightarrow>
      client_step c env p (p\<lparr>hal := s, worker := new_worker out (worker p),
        signalled := (out = CbJoin), joining := (out = CbJoin)\<rparr>)"
  | join: "joining p \<Longrightarrow> worker p = Some WkEnded \<Longrightarrow>
      client_step c env p (p\<lparr>hal := log_call ThreadJoin (hal p), worker := None, signalled := False, joining := False\<rparr>)"

text \<open>
  The worker. A pending signal is handled wherever it is; it interrupts \<open>epoll_wait\<close> only when the thread
  is in it.
\<close>

inductive worker_step :: "usb_consts \<Rightarrow> usb_env \<Rightarrow> usb_system \<Rightarrow> usb_system \<Rightarrow> bool"
  for c :: usb_consts and env :: usb_env
  where
    open_loop: "worker p = Some WkStart \<Longrightarrow> work_open socket_ok epoll_ok ctl_ok (hal p) = (go, s) \<Longrightarrow>
      worker_step c env p (p\<lparr>hal := s, worker := Some (if go then WkTest else WkEnded)\<rparr>)"
  | leave: "worker p = Some WkTest \<Longrightarrow> destroyThread (hal p) \<Longrightarrow>
      worker_step c env p (p\<lparr>hal := work_close (hal p), worker := Some WkEnded\<rparr>)"
  | go_on: "worker p = Some WkTest \<Longrightarrow> \<not> destroyThread (hal p) \<Longrightarrow>
      worker_step c env p (p\<lparr>worker := Some WkEnter\<rparr>)"
  | sleep: "worker p = Some WkEnter \<Longrightarrow> worker_step c env p (p\<lparr>worker := Some WkWait\<rparr>)"
  | uevent: "worker p = Some (WkEvents ((n, msg) # es)) \<Longrightarrow> uevent_event c env n msg (hal p) = Some s \<Longrightarrow>
      worker_step c env p (p\<lparr>hal := s, worker := Some (WkEvents es)\<rparr>)"
  | handled: "worker p = Some (WkEvents []) \<Longrightarrow> worker_step c env p (p\<lparr>worker := Some WkTest\<rparr>)"
  | signal: "signalled p \<Longrightarrow> worker p = Some pc \<Longrightarrow> pc \<noteq> WkEnded \<Longrightarrow>
      worker_step c env p (p\<lparr>hal := sighandler sig sig (hal p), signalled := False,
        worker := Some (if pc = WkWait then WkTest else pc)\<rparr>)"

text \<open>What the kernel does to a worker in \<open>epoll_wait\<close>: messages arrive, or the call fails.\<close>

inductive kernel_step :: "usb_system \<Rightarrow> usb_system \<Rightarrow> bool" where
    ready: "worker p = Some WkWait \<Longrightarrow> kernel_step p (p\<lparr>worker := Some (WkEvents es)\<rparr>)"
  | failed: "worker p = Some WkWait \<Longrightarrow>
      kernel_step p (p\<lparr>hal := work_close (hal p), worker := Some WkEnded\<rparr>)"

inductive_cases client_stepE: "client_step c env p q"
inductive_cases worker_stepE: "worker_step c env p q"
inductive_cases kernel_stepE: "kernel_step p q"

definition usb_step :: "usb_consts \<Rightarrow> usb_env \<Rightarrow> usb_system \<Rightarrow> usb_system \<Rightarrow> bool" where
  "usb_step c env p q \<longleftrightarrow> client_step c env p q \<or> worker_step c env p q \<or> kernel_step p q"

definition usb_init :: "usb_system \<Rightarrow> bool" where
  "usb_init p \<longleftrightarrow> Some (hal p) = Usb_constructor False False False False \<and> switcher p = SwIdle
     \<and> worker p = None \<and> \<not> signalled p \<and> \<not> joining p"

section \<open>Invariants\<close>

text \<open>The role switch: the lock is held to its end, and \<open>mPartnerUp\<close> is news from after the write.\<close>

definition switch_inv :: "usb_consts \<Rightarrow> usb_system \<Rightarrow> bool" where
  "switch_inv c p \<longleftrightarrow> (mRoleSwitchLock (hal p) \<longleftrightarrow> switcher p \<noteq> SwIdle)
     \<and> (\<forall>name r. switcher p = SwWaiting name r \<longrightarrow>
          mode_written c name r (usb_calls (hal p))
          \<and> (mPartnerUp (hal p) \<longrightarrow> partner_after_write c name r (usb_calls (hal p))))"

text \<open>The worker: it exists while a callback is set or a join waits, and is told to end only then.\<close>

definition worker_inv :: "usb_system \<Rightarrow> bool" where
  "worker_inv p \<longleftrightarrow> (worker p \<noteq> None \<longleftrightarrow> mCallback_1_0 (hal p) \<noteq> None \<or> joining p)
     \<and> (joining p \<longrightarrow> mCallback_1_0 (hal p) = None \<and> (signalled p \<or> destroyThread (hal p)))
     \<and> (signalled p \<longrightarrow> joining p)
     \<and> (mCallback_1_0 (hal p) \<noteq> None \<longrightarrow> \<not> destroyThread (hal p))"

definition usb_inv :: "usb_consts \<Rightarrow> usb_system \<Rightarrow> bool" where
  "usb_inv c p \<longleftrightarrow> switch_inv c p \<and> worker_inv p"

lemma usb_inv_init: "usb_init p \<Longrightarrow> usb_inv c p"
  by (auto simp: usb_init_def usb_inv_def switch_inv_def worker_inv_def Usb_constructor_def)

text \<open>The role switch only looks at these fields, the worker only at those.\<close>

lemma switch_inv_cong:
  "hal q = hal p \<Longrightarrow> switcher q = switcher p \<Longrightarrow> switch_inv c q \<longleftrightarrow> switch_inv c p"
  by (simp add: switch_inv_def)

definition same_flags :: "usb \<Rightarrow> usb \<Rightarrow> bool" where
  "same_flags s t \<longleftrightarrow> mCallback_1_0 t = mCallback_1_0 s \<and> destroyThread t = destroyThread s"

lemma worker_inv_cong:
  "same_flags (hal p) (hal q) \<Longrightarrow> worker q = None \<longleftrightarrow> worker p = None \<Longrightarrow> signalled q = signalled p \<Longrightarrow>
     joining q = joining p \<Longrightarrow> worker_inv q \<longleftrightarrow> worker_inv p"
  by (simp add: worker_inv_def same_flags_def)

section \<open>What the operations leave alone\<close>

lemma same_flags_refl [simp]: "same_flags s s"
  by (simp add: same_flags_def)

lemma same_flags_trans: "same_flags s t \<Longrightarrow> same_flags t u \<Longrightarrow> same_flags s u"
  by (simp add: same_flags_def)

lemma same_flags_query: "queryVersionHelper c env s = Some (ps, t) \<Longrightarrow> same_flags s t"
  by (auto simp: queryVersionHelper_def same_flags_def Let_def split: option.splits prod.splits)

lemma same_flags_drp: "same_flags s (drp_usb env name s)"
  by (simp add: same_flags_def drp_usb_def)

lemma same_flags_reset_ports: "same_flags s (fold (reset_port env) ps s)"
proof (induction ps arbitrary: s)
  case (Cons p ps)
  have "same_flags s (reset_port env p s)" by (simp add: reset_port_def same_flags_def drp_usb_def Let_def)
  with Cons show ?case by (auto intro: same_flags_trans)
qed simp

lemma same_flags_devtype: "devtype_event c env s = Some t \<Longrightarrow> same_flags s t"
  unfolding devtype_event_def
  by (auto split: option.splits if_splits intro: same_flags_trans [OF same_flags_query same_flags_reset_ports]
      same_flags_query)

lemma same_flags_uevent_loop: "uevent_loop c env cp s = Some t \<Longrightarrow> same_flags s t"
proof (induction c env cp s rule: uevent_loop.induct)
  case (2 c env ch cp s)
  then show ?case
    by (auto simp: Let_def split: if_splits intro: same_flags_devtype) (simp add: same_flags_def)
qed simp

lemma same_flags_uevent: "uevent_event c env n msg s = Some t \<Longrightarrow> same_flags s t"
  unfolding uevent_event_def by (auto split: if_splits dest: same_flags_uevent_loop)

lemma same_flags_finish: "same_flags s (switchRole_finish name r b s)"
  by (simp add: switchRole_finish_def same_flags_def Let_def)

lemma same_flags_wake: "switchRole_wake env name r timedout s = (pc, t) \<Longrightarrow> same_flags s t"
  by (auto simp: switchRole_wake_def switchMode_wake_def split: if_splits
      intro: same_flags_finish same_flags_trans [OF same_flags_drp])

lemma same_flags_by_write: "switch_by_write c env f r s = (b, t) \<Longrightarrow> same_flags s t"
  by (auto simp: switch_by_write_def same_flags_def Let_def split: prod.splits if_splits)

lemma same_flags_mode: "switchMode_start c env name r s = (res, t) \<Longrightarrow> same_flags s t"
  by (auto simp: switchMode_start_def same_flags_def drp_usb_def Let_def split: if_splits)

lemma same_flags_start:
  assumes "switchRole_start c env name r s = (pc, t)"
  shows "same_flags s t"
proof -
  let ?s = "s\<lparr>mRoleSwitchLock := True\<rparr>"
  have lock: "same_flags s ?s" by (simp add: same_flags_def)
  obtain b u where u: "switch_by_write c env (appendRoleNodeHelper (c_str name) (role_type r)) r ?s = (b, u)" by fastforce
  obtain res v where v: "switchMode_start c env name r ?s = (res, v)" by fastforce
  note tr = same_flags_trans [OF lock] same_flags_trans [OF same_flags_trans [OF lock] same_flags_finish]
  from same_flags_by_write [OF u] same_flags_mode [OF v] assms u v show ?thesis
    by (auto simp: switchRole_start_def Let_def split: if_splits option.splits intro: tr)
qed

lemma same_flags_work_open: "work_open a b d s = (go, t) \<Longrightarrow> same_flags s t"
  by (auto simp: work_open_def work_close_def same_flags_def Let_def split: if_splits)

lemma same_flags_data: "enableUsbDataSignal env on s = (b, t) \<Longrightarrow> same_flags s t"
  by (auto simp: enableUsbDataSignal_def write_string_def same_flags_def Let_def split: if_splits)

lemma same_flags_close [simp]: "same_flags s (work_close s)"
  by (simp add: same_flags_def work_close_def)

lemma disturbs_work_open: "work_open a b d s = (go, t) \<Longrightarrow> disturbs s t"
  by (auto simp: work_open_def work_close_def disturbs_def Let_def split: if_splits)

lemma disturbs_data: "enableUsbDataSignal env on s = (b, t) \<Longrightarrow> disturbs s t"
  by (auto simp: enableUsbDataSignal_def write_string_def disturbs_def Let_def split: if_splits)

lemma disturbs_log: "no_write x \<Longrightarrow> disturbs s (log_call x s)"
  by (simp add: disturbs_def)

lemma disturbs_close: "disturbs s (work_close s)"
  by (simp add: work_close_def disturbs_def)

lemma disturbs_callback_begin: "setCallback_begin kill_ok create_ok cb s = (out, t) \<Longrightarrow> disturbs s t"
  by (auto simp: setCallback_begin_def Let_def disturbs_def split: if_splits)

lemma disturbs_signal: "disturbs s (sighandler a b s)"
  by (simp add: sighandler_def disturbs_def)

section \<open>The invariants are kept\<close>

lemma switch_inv_start:
  assumes "switchRole_start c env name r s = (pc, t)" and "\<not> mRoleSwitchLock s"
  shows "switch_inv c (p\<lparr>hal := t, switcher := pc\<rparr>)"
proof (cases "role_type r = MODE")
  case True
  obtain res u where m: "switchMode_start c env name r (s\<lparr>mRoleSwitchLock := True\<rparr>) = (res, u)" by fastforce
  from switchMode_start_cases [OF m True] assms m True show ?thesis
    by (auto simp: switchRole_start_def Let_def switch_inv_def split: option.splits)
next
  case False
  with assms show ?thesis
    by (auto simp: switchRole_start_def Let_def switch_inv_def split: prod.splits if_splits)
qed

lemma switch_inv_wake:
  assumes "switch_inv c p" "switcher p = SwWaiting name r"
    and "switchRole_wake env name r timedout (hal p) = (pc, t)"
  shows "switch_inv c (p\<lparr>hal := t, switcher := pc\<rparr>)"
  using assms by (auto simp: switchRole_wake_def switchMode_wake_def switch_inv_def split: if_splits)

lemma switch_inv_disturbed:
  assumes "switch_inv c p" "disturbs (hal p) (hal q)" "switcher q = switcher p"
  shows "switch_inv c q"
proof -
  let ?t = "hal q"
  obtain xs where t: "mRoleSwitchLock ?t = mRoleSwitchLock (hal p)" "usb_calls ?t = usb_calls (hal p) @ xs"
    "mPartnerUp ?t = mPartnerUp (hal p) \<or> SignalPartner \<in> set xs" using assms(2) by (auto simp: disturbs_def)
  have "partner_after_write c name r (usb_calls ?t)"
    if "switcher p = SwWaiting name r" "mPartnerUp ?t" for name r
  proof (cases "SignalPartner \<in> set xs")
    case True
    then obtain ys zs where "xs = ys @ SignalPartner # zs" by (auto simp: in_set_conv_decomp)
    then show ?thesis using assms(1) that t(2) partner_after_signal [of c name r "usb_calls (hal p) @ ys" zs]
      by (auto simp: switch_inv_def intro: mode_written_append)
  next
    case False
    with assms(1) that t show ?thesis by (auto simp: switch_inv_def intro: partner_after_append)
  qed
  with assms t show ?thesis by (auto simp: switch_inv_def intro: mode_written_append)
qed

lemma client_keeps_switch:
  assumes inv: "switch_inv c p" and step: "client_step c env p q"
  shows "switch_inv c q"
  using step
proof cases
  case (query s)
  then show ?thesis using switch_inv_disturbed [OF inv, of q]
    by (auto simp: queryPortStatus_def intro: disturbs_query)
next
  case (detection name on s)
  then show ?thesis using switch_inv_disturbed [OF inv, of q]
    by (auto simp: enableContaminantPresenceDetection_def intro: disturbs_query)
next
  case (protection name on s)
  then show ?thesis using switch_inv_disturbed [OF inv, of q]
    by (auto simp: enableContaminantPresenceProtection_def intro: disturbs_query)
next
  case join
  then show ?thesis using switch_inv_disturbed [OF inv, of q] disturbs_log [of ThreadJoin "hal p"] by simp
qed (use inv switch_inv_disturbed [OF inv, of q] in
     \<open>auto intro: switch_inv_start switch_inv_wake disturbs_data disturbs_callback_begin\<close>)

lemma worker_keeps_switch:
  assumes inv: "switch_inv c p" and step: "worker_step c env p q \<or> kernel_step p q"
  shows "switch_inv c q"
proof -
  have "disturbs (hal p) (hal q)"
    using step by (auto elim!: worker_stepE kernel_stepE intro: disturbs_work_open disturbs_close disturbs_uevent disturbs_signal)
      (simp_all add: disturbs_def)
  moreover have "switcher q = switcher p" using step by (auto elim!: worker_stepE kernel_stepE)
  ultimately show ?thesis by (rule switch_inv_disturbed [OF inv])
qed

lemma worker_inv_callback:
  assumes "worker_inv p" "\<not> joining p" "setCallback_begin kill_ok create_ok cb (hal p) = (out, s)"
  shows "worker_inv (p\<lparr>hal := s, worker := new_worker out (worker p), signalled := (out = CbJoin), joining := (out = CbJoin)\<rparr>)"
  using assms by (auto simp: setCallback_begin_def worker_inv_def Let_def split: if_splits)

lemma client_keeps_worker:
  assumes inv: "worker_inv p" and step: "client_step c env p q"
  shows "worker_inv q"
  using step
proof cases
  case (callback kill_ok cb out s)
  then show ?thesis using worker_inv_callback [OF inv] by blast
next
  case join
  with inv show ?thesis by (simp add: worker_inv_def)
qed (use inv worker_inv_cong [of p q] in
     \<open>auto simp: queryPortStatus_def enableContaminantPresenceDetection_def enableContaminantPresenceProtection_def
        dest: same_flags_start same_flags_wake same_flags_query same_flags_data\<close>)

lemma worker_keeps_worker:
  assumes inv: "worker_inv p" and step: "worker_step c env p q \<or> kernel_step p q"
  shows "worker_inv q"
proof (cases "signalled q = signalled p")
  case True
  then have "same_flags (hal p) (hal q)" "worker q = None \<longleftrightarrow> worker p = None" "joining q = joining p"
    using step by (auto elim!: worker_stepE kernel_stepE intro: same_flags_work_open same_flags_uevent)
  with True inv show ?thesis using worker_inv_cong [of p q] by simp
next
  case False
  with step obtain sig pc where "q = p\<lparr>hal := sighandler sig sig (hal p), signalled := False,
        worker := Some (if pc = WkWait then WkTest else pc)\<rparr>" "signalled p" "worker p = Some pc"
    by (auto elim!: worker_stepE kernel_stepE)
  with inv show ?thesis by (auto simp: worker_inv_def sighandler_def)
qed

interpretation us: transition_invariant usb_init "usb_step c env" "usb_inv c" for c env
proof
  show "usb_inv c q" if "usb_inv c p" "usb_step c env p q" for p q
    using that client_keeps_switch worker_keeps_switch client_keeps_worker worker_keeps_worker
    unfolding usb_inv_def usb_step_def by blast
qed (rule usb_inv_init)

section \<open>Ending the worker\<close>

text \<open>
  The signal has been handled while the worker was past its test and not yet in \<open>epoll_wait\<close>: it goes to sleep, or
  sleeps, although it is to end.
\<close>

definition signal_missed :: "usb_system \<Rightarrow> bool" where
  "signal_missed p \<longleftrightarrow> \<not> signalled p \<and> (worker p = Some WkEnter \<or> worker p = Some WkWait)"

text \<open>How many steps the worker takes at most before it ends.\<close>

fun steps_left :: "bool \<Rightarrow> worker_pc \<Rightarrow> nat" where
  "steps_left pending WkEnded = 0"
| "steps_left pending WkTest = (if pending then 4 else 1)"
| "steps_left pending WkStart = (if pending then 5 else 2)"
| "steps_left pending (WkEvents es) = length es + (if pending then 5 else 2)"
| "steps_left pending WkEnter = 3"
| "steps_left pending WkWait = 2"

definition worker_left :: "usb_system \<Rightarrow> nat" where
  "worker_left p = (case worker p of None \<Rightarrow> 0 | Some pc \<Rightarrow> steps_left (signalled p) pc)"

lemma steps_left_0: "steps_left b pc = 0 \<longleftrightarrow> pc = WkEnded"
  by (cases pc) auto

lemma steps_left_signal: "pc \<noteq> WkWait \<Longrightarrow> pc \<noteq> WkEnter \<Longrightarrow> pc \<noteq> WkEnded \<Longrightarrow> steps_left False pc < steps_left True pc"
  by (cases pc) auto

lemma worker_step_joining:
  assumes "worker_step c env p q"
  shows "joining q = joining p"
  using assms by cases simp_all

lemma worker_step_nearer:
  assumes inv: "worker_inv p" and j: "joining p" and nm: "\<not> signal_missed p" and step: "worker_step c env p q"
  shows "signal_missed q \<or> worker_left q < worker_left p"
  using step
proof cases
  case (signal pc sig)
  then show ?thesis using steps_left_signal [of pc]
    by (cases "pc = WkWait"; cases "pc = WkEnter") (auto simp: worker_left_def signal_missed_def)
qed (use inv j nm in \<open>auto simp: worker_left_def signal_missed_def worker_inv_def\<close>)

lemma worker_handles:
  assumes "worker p = Some (WkEvents es)"
  shows "\<exists>q. worker_step c env p q \<and> \<not> signal_missed q"
proof (cases es)
  case Nil
  with handled [of p c env] assms show ?thesis by (fastforce simp: signal_missed_def)
next
  case (Cons e es')
  obtain n msg where e: "e = (n, msg)" by fastforce
  obtain s where "uevent_event c env n msg (hal p) = Some s"
    using uevent_loop_total by (fastforce simp: uevent_event_def)
  from uevent [OF _ this] assms Cons e show ?thesis by (fastforce simp: signal_missed_def)
qed

lemma worker_step_possible:
  assumes inv: "worker_inv p" and j: "joining p" and nm: "\<not> signal_missed p" and left: "worker_left p \<noteq> 0"
  shows "\<exists>q. worker_step c env p q \<and> \<not> signal_missed q"
proof -
  obtain pc where pc: "worker p = Some pc" "pc \<noteq> WkEnded"
    using left by (cases "worker p") (auto simp: worker_left_def steps_left_0)
  show ?thesis
  proof (cases pc)
    case WkStart
    obtain s where "work_open True True True (hal p) = (True, s)" by (simp add: work_open_def)
    from open_loop [of p, OF _ this] pc WkStart show ?thesis by (fastforce simp: signal_missed_def)
  next
    case WkTest
    show ?thesis
    proof (cases "destroyThread (hal p)")
      case True
      from leave [OF _ this] pc WkTest show ?thesis by (fastforce simp: signal_missed_def)
    next
      case False
      then have "signalled p" using inv j by (auto simp: worker_inv_def)
      with go_on [OF _ False] pc WkTest show ?thesis by (fastforce simp: signal_missed_def)
    qed
  next
    case WkEnter
    with nm pc have "signalled p" by (simp add: signal_missed_def)
    with Usb_Session.sleep [of p c env] pc WkEnter show ?thesis by (fastforce simp: signal_missed_def)
  next
    case WkWait
    with nm pc have "signalled p" by (simp add: signal_missed_def)
    from signal [OF this pc, of c env] WkWait show ?thesis by (fastforce simp: signal_missed_def)
  next
    case (WkEvents es)
    with worker_handles [of p es c env] pc show ?thesis by blast
  qed (use pc in simp)
qed

lemma worker_can_end:
  assumes "worker_inv p" "joining p" "\<not> signal_missed p"
  shows "\<exists>q. (worker_step c env)\<^sup>*\<^sup>* p q \<and> joining q \<and> worker q = Some WkEnded"
  using assms
proof (induction "worker_left p" arbitrary: p rule: less_induct)
  case less
  show ?case
  proof (cases "worker_left p = 0")
    case True
    then have "worker p = Some WkEnded" using less.prems
      by (cases "worker p") (auto simp: worker_left_def steps_left_0 worker_inv_def)
    with less.prems show ?thesis by blast
  next
    case False
    then obtain q where q: "worker_step c env p q" "\<not> signal_missed q"
      using worker_step_possible [OF less.prems] by blast
    then have "worker_left q < worker_left p" using worker_step_nearer [OF less.prems q(1)] by blast
    moreover have "worker_inv q" using worker_keeps_worker less.prems(1) q(1) by blast
    moreover have "joining q" using worker_step_joining [OF q(1)] less.prems(2) by simp
    ultimately obtain r where "(worker_step c env)\<^sup>*\<^sup>* q r" "joining r" "worker r = Some WkEnded"
      using less.hyps [OF _ _ _ q(2)] by blast
    with q(1) show ?thesis by (meson converse_rtranclp_into_rtranclp)
  qed
qed

lemma missed_stays:
  assumes missed: "signal_missed p" and j: "joining p" and step: "client_step c env p q \<or> worker_step c env p q"
  shows "signal_missed q \<and> joining q"
  using step missed j by (auto elim!: client_stepE worker_stepE simp: signal_missed_def)

section \<open>Properties\<close>

text \<open>
  C15: a mode switch is reported as a success only after the partner came back. In every
  reachable state of the threads, when a waiting role switch ends, the framework is told
  SUCCESS if the wait did not time out, and then a partner was signalled after the new mode had
  been written; after a time-out it is told ERROR and the port is put back to dual role.
\<close>

theorem switch_success_needs_partner:
  assumes reach: "reachable usb_init (usb_step c env) p" and w: "switcher p = SwWaiting name r"
    and e: "switchRole_wake env name r timedout (hal p) = (SwIdle, t)"
    and cb: "mCallback_1_0 (hal p) \<noteq> None"
  shows "last (usb_calls t) = NotifyRoleSwitch name r (if timedout then ERROR else SUCCESS)
    \<and> (if timedout then butlast (usb_calls t) = switchToDrp env (c_str name) (usb_calls (hal p))
       else partner_after_write c name r (butlast (usb_calls t)))"
proof -
  have inv: "usb_inv c p" using reach by (rule us.reachable_inv)
  show ?thesis
  proof (cases timedout)
    case True
    with e cb show ?thesis
      by (auto simp: switchRole_wake_def switchMode_wake_def switchRole_finish_def drp_usb_def Let_def)
  next
    case False
    with e have "mPartnerUp (hal p)" by (auto simp: switchRole_wake_def switchMode_wake_def split: if_splits)
    with inv w have "partner_after_write c name r (usb_calls (hal p))" by (simp add: usb_inv_def switch_inv_def)
    with False e cb \<open>mPartnerUp (hal p)\<close> show ?thesis
      by (auto simp: switchRole_wake_def switchMode_wake_def switchRole_finish_def Let_def)
  qed
qed

text \<open>
  C29: uevents do not interfere with a role switch. While one is in progress a uevent, whatever
  it contains, writes to no node of a port (in particular it does not put a port back to dual
  role) and leaves the role switch lock held.
\<close>

theorem no_drp_while_switching:
  assumes "reachable usb_init (usb_step c env) p" and "switcher p \<noteq> SwIdle"
    and "uevent_event c env n msg (hal p) = Some t"
  shows "mRoleSwitchLock t \<and> (\<exists>xs. usb_calls t = usb_calls (hal p) @ xs \<and> list_all no_write xs)"
proof -
  have "usb_inv c p" using assms(1) by (rule us.reachable_inv)
  with assms(2) have "mRoleSwitchLock (hal p)" by (simp add: usb_inv_def switch_inv_def)
  with disturbs_uevent [OF assms(3)] show ?thesis by (auto simp: disturbs_def)
qed



section \<open>Removals that do not return\<close>

definition new_usb :: usb_system where
  "new_usb = \<lparr>hal = fresh_usb, switcher = SwIdle, worker = None, signalled = False, joining = False\<rparr>"

lemma new_usb_init: "usb_init new_usb"
  by (simp add: usb_init_def new_usb_def Usb_constructor_def fresh_usb_def)

text \<open>A callback has been set and the worker has opened its descriptors.\<close>

definition served_system :: usb_system where
  "served_system = new_usb\<lparr>hal := served_usb, worker := Some WkTest\<rparr>"

lemma step_client: "client_step c env p q \<Longrightarrow> usb_step c env p q"
  and step_worker: "worker_step c env p q \<Longrightarrow> usb_step c env p q"
  and step_kernel: "kernel_step p q \<Longrightarrow> usb_step c env p q"
  by (simp_all add: usb_step_def)

lemma served_reachable: "reachable usb_init (usb_step c env) served_system"
proof -
  let ?p = "new_usb\<lparr>hal := fresh_usb\<lparr>mCallback_1_0 := Some example_cb, usb_calls := [ThreadCreate]\<rparr>, worker := Some WkStart\<rparr>"
  have "setCallback_begin True True (Some example_cb) (hal new_usb) = (CbCreated, hal ?p)"
    by (simp add: setCallback_begin_def new_usb_def fresh_usb_def)
  from callback [OF _ _ this, of c env] have "usb_step c env new_usb ?p" by (simp add: usb_step_def new_usb_def)
  moreover have "work_open True True True (hal ?p) = (True, served_usb)"
    by (simp add: work_open_def served_usb_def fresh_usb_def)
  from open_loop [OF _ this, of c env] have "usb_step c env ?p served_system"
    by (simp add: usb_step_def served_system_def)
  ultimately show ?thesis by (blast intro: reach_step reach_init new_usb_init)
qed

text \<open>The callback is removed while the worker is past its test.\<close>

definition removed_system :: usb_system where
  "removed_system = served_system\<lparr>hal := served_usb\<lparr>mCallback_1_0 := None\<rparr>, worker := Some WkEnter,
     signalled := True, joining := True\<rparr>"

lemma removed_reachable: "reachable usb_init (usb_step c env) removed_system"
proof -
  let ?p = "served_system\<lparr>worker := Some WkEnter\<rparr>"
  have "usb_step c env served_system ?p"
    by (rule step_worker, rule go_on) (simp_all add: served_system_def served_usb_def fresh_usb_def)
  moreover have "setCallback_begin True True None (hal ?p) = (CbJoin, hal removed_system)"
    by (simp add: setCallback_begin_def removed_system_def served_system_def served_usb_def)
  from callback [OF _ _ this, of c env] have "usb_step c env ?p removed_system"
    by (simp add: usb_step_def removed_system_def served_system_def new_usb_def)
  ultimately show ?thesis by (blast intro: reach_step served_reachable)
qed

text \<open>
  Removing the callback can hang. If the worker handles the signal after it has tested \<open>destroyThread\<close> and
  before it sleeps in \<open>epoll_wait\<close>, the call is not interrupted: as long as the kernel sends no message,
  no step of the worker or of any request lets the join return.
\<close>

theorem removal_can_hang:
  "\<exists>p. reachable usb_init (usb_step c env) p \<and> joining p
     \<and> (\<forall>q. (\<lambda>p q. client_step c env p q \<or> worker_step c env p q)\<^sup>*\<^sup>* p q \<longrightarrow> joining q)"
proof -
  let ?p = "removed_system\<lparr>hal := sighandler 10 10 (hal removed_system), signalled := False\<rparr>"
  have "signalled removed_system" "worker removed_system = Some WkEnter" by (simp_all add: removed_system_def)
  from step_worker [OF signal [OF this, of c env 10]] have "usb_step c env removed_system ?p"
    by (simp add: removed_system_def served_system_def new_usb_def)
  then have "reachable usb_init (usb_step c env) ?p" by (rule reach_step [OF removed_reachable])
  moreover have start: "signal_missed ?p \<and> joining ?p" by (simp add: signal_missed_def removed_system_def)
  moreover have "signal_missed q \<and> joining q"
    if "(\<lambda>p q. client_step c env p q \<or> worker_step c env p q)\<^sup>*\<^sup>* ?p q" for q
    using that start by (induction rule: rtranclp_induct) (auto dest: missed_stays)
  ultimately show ?thesis by blast
qed

text \<open>
  Overlapping calls: a callback that is set while the removal of the previous one still waits for its worker
  clears \<open>destroyThread\<close> and creates a second worker, so the first one, if it has not tested the flag
  yet, does not end and the removal waits on.
\<close>

theorem overlapping_callbacks:
  assumes "setCallback_begin True create_ok None s = (CbJoin, t)"
  shows "setCallback_begin kill_ok True (Some cb) (sighandler sig sig t)
      = (CbCreated, log_call ThreadCreate (t\<lparr>mCallback_1_0 := Some cb, destroyThread := False\<rparr>))"
  using assms by (auto simp: setCallback_begin_def sighandler_def Let_def split: if_splits)

text \<open>
  A worker that has ended by itself, because it could not open its descriptors or \<open>epoll_wait\<close> failed, is
  not replaced by another callback: only removing the callback and setting it again starts a new one.
\<close>

theorem dead_worker_not_replaced:
  assumes "client_step c env p q" and "worker p = Some WkEnded" and "mCallback_1_0 (hal q) \<noteq> None"
    and "worker_inv p" and "\<not> joining p"
  shows "worker q = Some WkEnded"
  using assms by cases (auto simp: setCallback_begin_def worker_inv_def Let_def split: if_splits)

section \<open>The properties at concrete inputs\<close>

text \<open>A mode switch while the worker sleeps, and the message that announces the partner.\<close>

definition switching_system :: "worker_pc \<Rightarrow> usb_system" where
  "switching_system pc = new_usb\<lparr>hal := switching_usb, switcher := SwWaiting ''port0'' to_ufp, worker := Some pc\<rparr>"

definition partner_message :: "int \<times> string" where
  "partner_message = (24, ''add@/devices/p0-partner'')"

definition partner_system :: usb_system where
  "partner_system = (switching_system (WkEvents []))\<lparr>hal := partner_usb\<rparr>"

lemma switching_reachable:
  "reachable usb_init (usb_step aosp_usb example_usb_env) (switching_system (WkEvents [partner_message]))"
proof -
  have 1: "usb_step aosp_usb example_usb_env served_system (switching_system WkTest)"
    using step_client [OF start [of served_system aosp_usb example_usb_env "''port0''" to_ufp]] example_usb_start
    by (simp add: served_system_def switching_system_def served_usb_def fresh_usb_def new_usb_def)
  have 2: "usb_step aosp_usb example_usb_env (switching_system WkTest) (switching_system WkEnter)"
    using step_worker [OF go_on [of "switching_system WkTest"]]
    by (simp add: switching_system_def example_usb_defs)
  have 3: "usb_step aosp_usb example_usb_env (switching_system WkEnter) (switching_system WkWait)"
    using step_worker [OF Usb_Session.sleep [of "switching_system WkEnter"]] by (simp add: switching_system_def)
  have 4: "usb_step aosp_usb example_usb_env (switching_system WkWait) (switching_system (WkEvents [partner_message]))"
    using step_kernel [OF ready [of "switching_system WkWait"]] by (simp add: switching_system_def)
  show ?thesis by (rule reach_step [OF reach_step [OF reach_step [OF reach_step [OF served_reachable 1] 2] 3] 4])
qed

lemma partner_reachable: "reachable usb_init (usb_step aosp_usb example_usb_env) partner_system"
proof (rule reach_step [OF switching_reachable], rule step_worker)
  show "worker_step aosp_usb example_usb_env (switching_system (WkEvents [partner_message])) partner_system"
    using uevent [of "switching_system (WkEvents [partner_message])"] example_partner_added
    by (simp add: switching_system_def partner_message_def partner_system_def new_usb_def)
qed

theorem switch_success_needs_partner_witness:
  "\<exists>t. switchRole_wake example_usb_env ''port0'' to_ufp False (hal partner_system) = (SwIdle, t)
     \<and> last (usb_calls t) = NotifyRoleSwitch ''port0'' to_ufp SUCCESS
     \<and> partner_after_write aosp_usb ''port0'' to_ufp (butlast (usb_calls t))"
proof -
  obtain t where t: "switchRole_wake example_usb_env ''port0'' to_ufp False (hal partner_system) = (SwIdle, t)"
    by (simp add: switchRole_wake_def switchMode_wake_def partner_system_def partner_usb_def)
  have "switcher partner_system = SwWaiting ''port0'' to_ufp" by (simp add: partner_system_def switching_system_def)
  from switch_success_needs_partner [OF partner_reachable this t] t show ?thesis
    by (simp add: partner_system_def example_usb_defs)
qed

theorem no_drp_while_switching_witness:
  "\<exists>xs. usb_calls partner_usb = usb_calls switching_usb @ xs \<and> list_all no_write xs"
  using no_drp_while_switching [OF switching_reachable, of 24 "''add@/devices/p0-partner''" partner_usb] example_partner_added
  by (simp add: switching_system_def)



end
