(* ===== verification/Usb_Gadget.thy ===== *)
theory Usb_Gadget
  imports Cpp_String
begin

text \<open>
  The USB gadget HAL of \<open>src/usb/UsbGadget.cpp\<close>: taking the gadget apart, choosing the vendor and
  product id, linking the functions into the configuration, and the thread that pulls the
  gadget up once the endpoints of the user space functions exist.

  The bits of \<open>GadgetFunction\<close> are the record \<open>gadget_consts\<close>. The operating system is the record
  \<open>gadget_env\<close>: its answers depend on the calls made before, which \<open>gadget_calls\<close> records.
\<close>

section \<open>Data\<close>

record gadget_consts =
  fn_NONE :: u64
  fn_ADB :: u64
  fn_ACCESSORY :: u64
  fn_MTP :: u64
  fn_MIDI :: u64
  fn_PTP :: u64
  fn_RNDIS :: u64
  fn_AUDIO_SOURCE :: u64

datatype gadget_status =
  G_SUCCESS | G_ERROR | CONFIGURATION_NOT_SUPPORTED | FUNCTIONS_APPLIED | FUNCTIONS_NOT_APPLIED

datatype gadget_call =
    GWrite string string
  | GOpenDir string
  | GRemove string
  | GMkdir string
  | GSymlink string string
  | GSetProperty string string
  | GInotifyInit
  | GAddWatch string
  | GEventFd
  | GEpollCreate
  | GEpollAdd string
  | GAccess string
  | GStartMonitor
  | GStopMonitor
  | GJoinMonitor
  | GCallback u64 gadget_status
  | GCurrentCallback u64 gadget_status

text \<open>
  Each field answers one system call: \<open>True\<close> is success. \<open>g_dir\<close> gives the names in a
  directory, \<open>None\<close> when it cannot be opened.
\<close>

record gadget_env =
  g_write :: "gadget_call list \<Rightarrow> string \<Rightarrow> string \<Rightarrow> bool"
  g_dir :: "gadget_call list \<Rightarrow> string \<Rightarrow> string list option"
  g_remove :: "gadget_call list \<Rightarrow> string \<Rightarrow> bool"
  g_symlink :: "gadget_call list \<Rightarrow> string \<Rightarrow> string \<Rightarrow> bool"
  g_property :: "gadget_call list \<Rightarrow> string \<Rightarrow> string \<Rightarrow> string"
  g_inotify_init :: "gadget_call list \<Rightarrow> bool"
  g_add_watch :: "gadget_call list \<Rightarrow> string \<Rightarrow> bool"
  g_eventfd :: "gadget_call list \<Rightarrow> bool"
  g_epoll_create :: "gadget_call list \<Rightarrow> bool"
  g_epoll_add :: "gadget_call list \<Rightarrow> string \<Rightarrow> bool"
  g_access :: "gadget_call list \<Rightarrow> string \<Rightarrow> bool"

text \<open>The local variables of \<open>monitorFfs\<close> that outlive a round; \<open>disconnect\<close> in microseconds.\<close>

record monitor =
  writeUdc :: bool
  stopMonitor :: bool
  disconnect :: int

text \<open>The three descriptors are open together or closed together; \<open>mFds\<close> is whether they are.\<close>

record gadget =
  mCurrentUsbFunctions :: u64
  mCurrentUsbFunctionsApplied :: bool
  mMonitorCreated :: bool
  mMonitor :: "monitor option"
  mFds :: bool
  mEndpointList :: "string list"
  gadgetPullup :: bool
  gadget_calls :: "gadget_call list"

abbreviation gcall :: "gadget_call \<Rightarrow> gadget \<Rightarrow> gadget" where
  "gcall x s \<equiv> s\<lparr>gadget_calls := gadget_calls s @ [x]\<rparr>"

definition GADGET_PATH :: string where "GADGET_PATH = ''/config/usb_gadget/g1/''"
definition GADGET_PULLUP_PATH :: string where "GADGET_PULLUP_PATH = GADGET_PATH @ ''UDC''"
definition VENDOR_ID_PATH :: string where "VENDOR_ID_PATH = GADGET_PATH @ ''idVendor''"
definition PRODUCT_ID_PATH :: string where "PRODUCT_ID_PATH = GADGET_PATH @ ''idProduct''"
definition DEVICE_CLASS_PATH :: string where "DEVICE_CLASS_PATH = GADGET_PATH @ ''bDeviceClass''"
definition DEVICE_SUB_CLASS_PATH :: string where "DEVICE_SUB_CLASS_PATH = GADGET_PATH @ ''bDeviceSubClass''"
definition DEVICE_PROTOCOL_PATH :: string where "DEVICE_PROTOCOL_PATH = GADGET_PATH @ ''bDeviceProtocol''"
definition DESC_USE_PATH :: string where "DESC_USE_PATH = GADGET_PATH @ ''os_desc/use''"
definition CONFIG_PATH :: string where "CONFIG_PATH = GADGET_PATH @ ''configs/b.1/''"
definition FUNCTIONS_PATH :: string where "FUNCTIONS_PATH = GADGET_PATH @ ''functions/''"
definition FUNCTION_NAME :: string where "FUNCTION_NAME = ''function''"
definition FUNCTION_PATH :: string where "FUNCTION_PATH = CONFIG_PATH @ FUNCTION_NAME"
definition BUILD_TYPE :: string where "BUILD_TYPE = ''ro.build.type''"
definition PERSISTENT_BOOT_MODE :: string where "PERSISTENT_BOOT_MODE = ''ro.bootmode''"
definition PERSISTENT_VENDOR_CONFIG :: string where "PERSISTENT_VENDOR_CONFIG = ''persist.vendor.usb.usbradio.config''"
definition VENDOR_CONFIG :: string where "VENDOR_CONFIG = ''vendor.usb.config''"
definition MAX_FILE_PATH_LENGTH :: nat where "MAX_FILE_PATH_LENGTH = 256"
definition PULL_UP_DELAY :: int where "PULL_UP_DELAY = 500000"

definition GADGET_NAME :: "gadget_env \<Rightarrow> gadget \<Rightarrow> string" where
  "GADGET_NAME env s = g_property env (gadget_calls s) ''sys.usb.controller'' ''''"

section \<open>System calls\<close>

definition gadget_WriteStringToFile :: "gadget_env \<Rightarrow> string \<Rightarrow> string \<Rightarrow> gadget \<Rightarrow> bool \<times> gadget" where
  "gadget_WriteStringToFile env content path s = (g_write env (gadget_calls s) content path, gcall (GWrite path content) s)"

text \<open>\<open>if (...) return Status::ERROR;\<close> with the rest of the function.\<close>

definition ensure :: "bool \<times> gadget \<Rightarrow> (gadget \<Rightarrow> gadget_status \<times> gadget) \<Rightarrow> gadget_status \<times> gadget" where
  "ensure r k = (case r of (ok, s) \<Rightarrow> if ok then k s else (G_ERROR, s))"

section \<open>The monitor thread\<close>

text \<open>The loop that checks the endpoints stops at the first one that is missing.\<close>

fun endpoints_present :: "gadget_env \<Rightarrow> string list \<Rightarrow> gadget \<Rightarrow> bool \<times> gadget" where
  "endpoints_present env [] s = (True, s)"
| "endpoints_present env (e # es) s =
     (let present = g_access env (gadget_calls s) e; s = gcall (GAccess e) s
      in if \<not> present then (False, s) else endpoints_present env es s)"

definition pull_up :: "gadget_env \<Rightarrow> monitor \<Rightarrow> gadget \<Rightarrow> monitor \<times> gadget" where
  "pull_up env m s =
     (let (ok, s) = gadget_WriteStringToFile env (GADGET_NAME env s) GADGET_PULLUP_PATH s
      in if ok then (m\<lparr>writeUdc := False\<rparr>, s\<lparr>mCurrentUsbFunctionsApplied := True, gadgetPullup := True\<rparr>)
         else (m, s))"

definition monitorFfs_begin :: "gadget_env \<Rightarrow> gadget \<Rightarrow> monitor \<times> gadget" where
  "monitorFfs_begin env s =
     (let m = \<lparr>writeUdc = True, stopMonitor = False, disconnect = 0\<rparr>;
          (descriptorWritten, s) = endpoints_present env (mEndpointList s) s
      in if descriptorWritten then pull_up env m s else (m, s))"

text \<open>One inotify event, at the time \<open>now\<close>; how long the thread sleeps is not modelled.\<close>

definition monitorFfs_inotify :: "gadget_env \<Rightarrow> int \<Rightarrow> monitor \<times> gadget \<Rightarrow> monitor \<times> gadget" where
  "monitorFfs_inotify env now ms =
     (let (m, s) = ms; (descriptorPresent, s) = endpoints_present env (mEndpointList s) s
      in if \<not> descriptorPresent \<and> \<not> writeUdc m then (m\<lparr>writeUdc := True, disconnect := now\<rparr>, s)
         else if descriptorPresent \<and> writeUdc m then pull_up env m s
         else (m, s))"

text \<open>What \<open>epoll_wait\<close> reports: inotify events with their times, or a value in the event descriptor.\<close>

datatype monitor_input = Inotify "int list" | Flag u64

fun monitorFfs_input :: "gadget_env \<Rightarrow> monitor_input \<Rightarrow> monitor \<times> gadget \<Rightarrow> monitor \<times> gadget" where
  "monitorFfs_input env (Inotify ts) ms = fold (monitorFfs_inotify env) ts ms"
| "monitorFfs_input env (Flag flag) (m, s) = (if flag = 100 then (m\<lparr>stopMonitor := True\<rparr>, s) else (m, s))"

fun monitorFfs_run :: "gadget_env \<Rightarrow> monitor_input list \<Rightarrow> monitor \<times> gadget \<Rightarrow> monitor \<times> gadget" where
  "monitorFfs_run env [] ms = ms"
| "monitorFfs_run env (x # xs) ms =
     (if stopMonitor (fst ms) then ms else monitorFfs_run env xs (monitorFfs_input env x ms))"

section \<open>Taking the gadget apart\<close>

text \<open>
  \<open>unlinkFunctions\<close>: the name is copied into a buffer of 256 bytes behind the path and a
  slash; a longer result is the fault \<open>None\<close>.
\<close>

fun unlink_entries ::
  "gadget_env \<Rightarrow> string \<Rightarrow> string list \<Rightarrow> gadget \<Rightarrow> (bool \<times> gadget) option" where
  "unlink_entries env path [] s = Some (True, s)"
| "unlink_entries env path (d_name # es) s =
     (if find_from FUNCTION_NAME (c_str d_name) 0 = None then unlink_entries env path es s
      else
        let filepath = path @ ''/'' @ c_str d_name
        in if length filepath + 1 > MAX_FILE_PATH_LENGTH then None
           else
             let ret = g_remove env (gadget_calls s) filepath; s = gcall (GRemove filepath) s
             in if \<not> ret then Some (False, s) else unlink_entries env path es s)"

definition unlinkFunctions :: "gadget_env \<Rightarrow> string \<Rightarrow> gadget \<Rightarrow> (bool \<times> gadget) option" where
  "unlinkFunctions env path s =
     (let entries = g_dir env (gadget_calls s) path; s = gcall (GOpenDir path) s
      in case entries of None \<Rightarrow> Some (False, s) | Some es \<Rightarrow> unlink_entries env path es s)"

text \<open>
  The end of \<open>tearDownGadget\<close>: stop the monitor, which first handles the inputs \<open>late\<close> that were
  there before the flag, and close the descriptors.
\<close>

definition stop_monitor :: "gadget_env \<Rightarrow> monitor_input list \<Rightarrow> gadget \<Rightarrow> gadget" where
  "stop_monitor env late s =
     (let s = (if mMonitorCreated s then
                 let s = gcall GStopMonitor s;
                     s = (case mMonitor s of
                            None \<Rightarrow> s
                          | Some m \<Rightarrow> snd (monitorFfs_run env (late @ [Flag 100]) (m, s)));
                     s = gcall GJoinMonitor s
                 in s\<lparr>mMonitorCreated := False, mMonitor := None\<rparr>
               else s)
      in s\<lparr>mFds := False, mEndpointList := []\<rparr>)"

definition tearDownGadget ::
  "gadget_env \<Rightarrow> monitor_input list \<Rightarrow> gadget \<Rightarrow> (gadget_status \<times> gadget) option" where
  "tearDownGadget env late s =
     (let (_, s) = gadget_WriteStringToFile env ''none'' GADGET_PULLUP_PATH s;
          (st, s) = ensure (gadget_WriteStringToFile env ''0'' DEVICE_CLASS_PATH s) (\<lambda>s.
                    ensure (gadget_WriteStringToFile env ''0'' DEVICE_SUB_CLASS_PATH s) (\<lambda>s.
                    ensure (gadget_WriteStringToFile env ''0'' DEVICE_PROTOCOL_PATH s) (\<lambda>s.
                    ensure (gadget_WriteStringToFile env ''0'' DESC_USE_PATH s) (\<lambda>s. (G_SUCCESS, s)))))
      in if st \<noteq> G_SUCCESS then Some (st, s)
         else case unlinkFunctions env CONFIG_PATH s of
                None \<Rightarrow> None
              | Some (ok, s) \<Rightarrow>
                  if \<not> ok then Some (G_ERROR, s) else Some (G_SUCCESS, stop_monitor env late s))"

definition gadget_reset :: "gadget_env \<Rightarrow> gadget \<Rightarrow> gadget_status \<times> gadget" where
  "gadget_reset env s =
     (let (ok, s) = gadget_WriteStringToFile env ''none'' GADGET_PULLUP_PATH s
      in (if \<not> ok then G_ERROR else G_SUCCESS, s))"

section \<open>Ids\<close>

definition setVidPid :: "gadget_env \<Rightarrow> string \<Rightarrow> string \<Rightarrow> gadget \<Rightarrow> gadget_status \<times> gadget" where
  "setVidPid env vid pid s =
     ensure (gadget_WriteStringToFile env vid VENDOR_ID_PATH s) (\<lambda>s.
     ensure (gadget_WriteStringToFile env pid PRODUCT_ID_PATH s) (\<lambda>s. (G_SUCCESS, s)))"

definition getVendorFunctions :: "gadget_env \<Rightarrow> gadget \<Rightarrow> string \<times> gadget" where
  "getVendorFunctions env s =
     (let prop = g_property env (gadget_calls s)
      in if prop BUILD_TYPE '''' = ''user'' then (''user'', s)
         else
           let bootMode = prop PERSISTENT_BOOT_MODE '''';
               persistVendorFunctions = prop PERSISTENT_VENDOR_CONFIG '''';
               vendorFunctions = prop VENDOR_CONFIG ''''
           in if vendorFunctions \<noteq> '''' then (vendorFunctions, s)
              else if bootMode = ''usbradio'' then
                let ret = (if persistVendorFunctions \<noteq> '''' then persistVendorFunctions else ''diag'')
                in (ret, gcall (GSetProperty VENDOR_CONFIG ret) s)
              else ('''', s))"

text \<open>
  The switch on the functions: the ids for a vendor configuration, if any, and the ids without
  one; \<open>strict\<close> is whether another vendor configuration is refused.
\<close>

definition vid_pid_entry ::
  "gadget_consts \<Rightarrow> u64 \<Rightarrow> ((string \<times> string) list \<times> bool \<times> string) option" where
  "vid_pid_entry c functions =
     (if functions = fn_MTP c then Some ([(''diag'', ''0x901B'')], True, ''0x4ee1'')
      else if functions = fn_ADB c OR fn_MTP c then Some ([(''diag'', ''0x903A'')], True, ''0x4ee2'')
      else if functions = fn_RNDIS c
      then Some ([(''diag'', ''0x902C''), (''serial_cdev,diag'', ''0x90B5'')], True, ''0x4ee3'')
      else if functions = fn_ADB c OR fn_RNDIS c
      then Some ([(''diag'', ''0x902D''), (''serial_cdev,diag'', ''0x90B6'')], True, ''0x4ee4'')
      else if functions = fn_PTP c then Some ([], True, ''0x4ee5'')
      else if functions = fn_ADB c OR fn_PTP c then Some ([], True, ''0x4ee6'')
      else if functions = fn_ADB c
      then Some ([(''diag'', ''0x901D''), (''diag,serial_cdev,rmnet_gsi'', ''0x9091''),
             (''diag,serial_cdev'', ''0x901F'')], True, ''0x4ee7'')
      else if functions = fn_MIDI c then Some ([], True, ''0x4ee8'')
      else if functions = fn_ADB c OR fn_MIDI c then Some ([], True, ''0x4ee9'')
      else if functions = fn_ACCESSORY c then Some ([], False, ''0x2d00'')
      else if functions = fn_ADB c OR fn_ACCESSORY c then Some ([], False, ''0x2d01'')
      else if functions = fn_AUDIO_SOURCE c then Some ([], False, ''0x2d02'')
      else if functions = fn_ADB c OR fn_AUDIO_SOURCE c then Some ([], False, ''0x2d03'')
      else if functions = fn_ACCESSORY c OR fn_AUDIO_SOURCE c then Some ([], False, ''0x2d04'')
      else if functions = fn_ADB c OR fn_ACCESSORY c OR fn_AUDIO_SOURCE c then Some ([], False, ''0x2d05'')
      else None)"

definition validateAndSetVidPid :: "gadget_consts \<Rightarrow> gadget_env \<Rightarrow> u64 \<Rightarrow> gadget \<Rightarrow> gadget_status \<times> gadget" where
  "validateAndSetVidPid c env functions s =
     (let (vendorFunctions, s) = getVendorFunctions env s
      in case vid_pid_entry c functions of
           None \<Rightarrow> (CONFIGURATION_NOT_SUPPORTED, s)
         | Some (vendor, strict, pid) \<Rightarrow>
             (case map_of vendor vendorFunctions of
                Some vpid \<Rightarrow> setVidPid env ''0x05C6'' vpid s
              | None \<Rightarrow>
                  if strict \<and> \<not> (vendorFunctions = ''user'' \<or> vendorFunctions = '''')
                  then (CONFIGURATION_NOT_SUPPORTED, s)
                  else setVidPid env ''0x18d1'' pid s))"

section \<open>Linking the functions\<close>

definition linkFunction :: "gadget_env \<Rightarrow> string \<Rightarrow> nat \<Rightarrow> gadget \<Rightarrow> (bool \<times> gadget) option" where
  "linkFunction env function index s =
     (let functionPath = FUNCTIONS_PATH @ function;
          link = FUNCTION_PATH @ decimal index
      in if length functionPath + 1 > MAX_FILE_PATH_LENGTH \<or> length link + 1 > MAX_FILE_PATH_LENGTH then None
         else
           let s = (if function = ''rndis.gs4'' then gcall (GMkdir functionPath) s else s);
               ok = g_symlink env (gadget_calls s) functionPath link
           in Some (ok, gcall (GSymlink functionPath link) s))"

text \<open>
  The locals of \<open>setupFunctions\<close> while it links: the index of the next link and
  \<open>ffsEnabled\<close>. A block of the function either lets it go on (\<open>True\<close>) or makes it return
  \<open>Status::ERROR\<close> (\<open>False\<close>); \<open>None\<close> is an overflow of the path buffers.
\<close>

record linker =
  link_i :: nat
  ffsEnabled :: bool
  link_gadget :: gadget

abbreviation on_gadget :: "(gadget \<Rightarrow> gadget) \<Rightarrow> linker \<Rightarrow> linker" where
  "on_gadget f x \<equiv> x\<lparr>link_gadget := f (link_gadget x)\<rparr>"

definition link_block :: "gadget_env \<Rightarrow> string \<Rightarrow> linker \<Rightarrow> (bool \<times> linker) option" where
  "link_block env function x =
     (case linkFunction env function (link_i x) (link_gadget x) of
        None \<Rightarrow> None
      | Some (ok, s) \<Rightarrow> Some (ok, x\<lparr>link_i := Suc (link_i x), link_gadget := s\<rparr>))"

text \<open>A function that lives in user space: os descriptor, watch, link, endpoints.\<close>

definition ffs_block ::
  "gadget_env \<Rightarrow> string \<Rightarrow> string \<Rightarrow> string list \<Rightarrow> linker \<Rightarrow> (bool \<times> linker) option" where
  "ffs_block env dir function endpoints x =
     (let x = x\<lparr>ffsEnabled := True\<rparr>;
          (ok, s) = gadget_WriteStringToFile env ''1'' DESC_USE_PATH (link_gadget x);
          x = x\<lparr>link_gadget := s\<rparr>
      in if \<not> ok then Some (False, x)
         else
           let ok = g_add_watch env (gadget_calls (link_gadget x)) dir;
               x = on_gadget (gcall (GAddWatch dir)) x
           in if \<not> ok then Some (False, x)
              else case link_block env function x of
                     None \<Rightarrow> None
                   | Some (ok, x) \<Rightarrow>
                       if \<not> ok then Some (False, x)
                       else Some (True, on_gadget (\<lambda>s. s\<lparr>mEndpointList := mEndpointList s @ endpoints\<rparr>) x))"

definition mtp_ptp_block :: "gadget_consts \<Rightarrow> gadget_env \<Rightarrow> u64 \<Rightarrow> linker \<Rightarrow> (bool \<times> linker) option" where
  "mtp_ptp_block c env functions x =
     (if functions AND fn_MTP c \<noteq> 0 then
        ffs_block env ''/dev/usb-ffs/mtp/'' ''ffs.mtp''
          [''/dev/usb-ffs/mtp/ep1'', ''/dev/usb-ffs/mtp/ep2'', ''/dev/usb-ffs/mtp/ep3''] x
      else if functions AND fn_PTP c \<noteq> 0 then
        ffs_block env ''/dev/usb-ffs/ptp/'' ''ffs.ptp''
          [''/dev/usb-ffs/ptp/ep1'', ''/dev/usb-ffs/ptp/ep2'', ''/dev/usb-ffs/ptp/ep3''] x
      else Some (True, x))"

definition function_block ::
  "gadget_env \<Rightarrow> u64 \<Rightarrow> u64 \<Rightarrow> string \<Rightarrow> linker \<Rightarrow> (bool \<times> linker) option" where
  "function_block env functions gf function x =
     (if functions AND gf \<noteq> 0 then link_block env function x else Some (True, x))"

text \<open>\<open>strtok\<close> with a comma: the non-empty pieces of the string.\<close>

fun split_commas :: "string \<Rightarrow> string \<Rightarrow> string list" where
  "split_commas [] piece = (if piece = [] then [] else [piece])"
| "split_commas (ch # s) piece =
     (if ch = CHR '','' then (if piece = [] then split_commas s [] else piece # split_commas s [])
      else split_commas s (piece @ [ch]))"

fun vendor_loop :: "gadget_env \<Rightarrow> string list \<Rightarrow> linker \<Rightarrow> (bool \<times> linker) option" where
  "vendor_loop env [] x = Some (True, x)"
| "vendor_loop env (function # fs) x =
     (case (if function = ''diag'' then Some ''diag.diag''
            else if function = ''serial_cdev'' then Some ''cser.dun.0''
            else if function = ''rmnet_gsi'' then Some ''gsi.rmnet'' else None) of
        None \<Rightarrow> vendor_loop env fs x
      | Some target \<Rightarrow>
          (case link_block env target x of
             None \<Rightarrow> None
           | Some (ok, x) \<Rightarrow> if \<not> ok then Some (False, x) else vendor_loop env fs x))"

definition vendor_block :: "gadget_env \<Rightarrow> linker \<Rightarrow> (bool \<times> linker) option" where
  "vendor_block env x =
     (let (vendorFunctions, s) = getVendorFunctions env (link_gadget x); x = x\<lparr>link_gadget := s\<rparr>
      in if vendorFunctions \<noteq> '''' then vendor_loop env (split_commas (c_str vendorFunctions) []) x
         else Some (True, x))"

definition adb_block :: "gadget_consts \<Rightarrow> gadget_env \<Rightarrow> u64 \<Rightarrow> linker \<Rightarrow> (bool \<times> linker) option" where
  "adb_block c env functions x =
     (if functions AND fn_ADB c \<noteq> 0
      then ffs_block env ''/dev/usb-ffs/adb/'' ''ffs.adb'' [''/dev/usb-ffs/adb/ep1'', ''/dev/usb-ffs/adb/ep2''] x
      else Some (True, x))"

fun run_blocks :: "(linker \<Rightarrow> (bool \<times> linker) option) list \<Rightarrow> linker \<Rightarrow> (bool \<times> linker) option" where
  "run_blocks [] x = Some (True, x)"
| "run_blocks (b # bs) x =
     (case b x of None \<Rightarrow> None | Some (ok, x) \<Rightarrow> if \<not> ok then Some (False, x) else run_blocks bs x)"

definition link_blocks ::
  "gadget_consts \<Rightarrow> gadget_env \<Rightarrow> u64 \<Rightarrow> (linker \<Rightarrow> (bool \<times> linker) option) list" where
  "link_blocks c env functions =
     [mtp_ptp_block c env functions,
      function_block env functions (fn_MIDI c) ''midi.gs5'',
      function_block env functions (fn_ACCESSORY c) ''accessory.gs2'',
      function_block env functions (fn_AUDIO_SOURCE c) ''audio_source.gs3'',
      function_block env functions (fn_RNDIS c) ''rndis.gs4'',
      vendor_block env,
      adb_block c env functions]"

text \<open>
  The rest of \<open>setupFunctions\<close>. \<open>callback\<close> is whether there is one; \<open>inputs\<close> is what the monitor
  thread sees before the wait for \<open>gadgetPullup\<close> ends.
\<close>

definition pull_up_now :: "gadget_env \<Rightarrow> u64 \<Rightarrow> bool \<Rightarrow> gadget \<Rightarrow> gadget_status \<times> gadget" where
  "pull_up_now env functions callback s =
     ensure (gadget_WriteStringToFile env (GADGET_NAME env s) GADGET_PULLUP_PATH s) (\<lambda>s.
       let s = s\<lparr>mCurrentUsbFunctionsApplied := True\<rparr>
       in (G_SUCCESS, if callback then gcall (GCallback functions G_SUCCESS) s else s))"

text \<open>\<open>addEpollFd\<close>: the descriptor is named by what it watches; a failure is logged and returned.\<close>

definition addEpollFd :: "gadget_env \<Rightarrow> string \<Rightarrow> gadget \<Rightarrow> bool \<times> gadget" where
  "addEpollFd env fd s = (g_epoll_add env (gadget_calls s) fd, gcall (GEpollAdd fd) s)"

definition start_monitor ::
  "gadget_env \<Rightarrow> u64 \<Rightarrow> bool \<Rightarrow> monitor_input list \<Rightarrow> gadget \<Rightarrow> gadget_status \<times> gadget" where
  "start_monitor env functions callback inputs s =
     ensure (g_eventfd env (gadget_calls s), gcall GEventFd s) (\<lambda>s.
     ensure (g_epoll_create env (gadget_calls s), gcall GEpollCreate s) (\<lambda>s.
     ensure (addEpollFd env ''inotify'' s) (\<lambda>s.
     ensure (addEpollFd env ''event'' s) (\<lambda>s.
       let s = s\<lparr>mFds := True, gadgetPullup := False\<rparr>;
           s = (gcall GStartMonitor s)\<lparr>mMonitorCreated := True\<rparr>
       in if callback then
            let (m, s) = monitorFfs_run env inputs (monitorFfs_begin env s);
                s = s\<lparr>mMonitor := Some m\<rparr>
            in (G_SUCCESS, gcall (GCallback functions (if gadgetPullup s then G_SUCCESS else G_ERROR)) s)
          else
            let (m, s) = monitorFfs_begin env s in (G_SUCCESS, s\<lparr>mMonitor := Some m\<rparr>)))))"

definition setupFunctions ::
  "gadget_consts \<Rightarrow> gadget_env \<Rightarrow> u64 \<Rightarrow> bool \<Rightarrow> monitor_input list \<Rightarrow> gadget \<Rightarrow> (gadget_status \<times> gadget) option" where
  "setupFunctions c env functions callback inputs s =
     (let ok = g_inotify_init env (gadget_calls s); s = gcall GInotifyInit s
      in if \<not> ok then Some (G_ERROR, s)
         else case run_blocks (link_blocks c env functions) \<lparr>link_i = 0, ffsEnabled = False, link_gadget = s\<rparr> of
                None \<Rightarrow> None
              | Some (ok, x) \<Rightarrow>
                  if \<not> ok then Some (G_ERROR, link_gadget x)
                  else if \<not> ffsEnabled x then Some (pull_up_now env functions callback (link_gadget x))
                  else Some (start_monitor env functions callback inputs (link_gadget x)))"

definition setCurrentUsbFunctions ::
  "gadget_consts \<Rightarrow> gadget_env \<Rightarrow> u64 \<Rightarrow> bool \<Rightarrow> monitor_input list \<Rightarrow> monitor_input list \<Rightarrow> gadget \<Rightarrow> gadget option" where
  "setCurrentUsbFunctions c env functions callback late inputs s =
     (let s = s\<lparr>mCurrentUsbFunctions := functions, mCurrentUsbFunctionsApplied := False\<rparr>;
          failed = (\<lambda>status s. Some (if callback then gcall (GCallback functions status) s else s))
      in case tearDownGadget env late s of
           None \<Rightarrow> None
         | Some (status, s) \<Rightarrow>
             if status \<noteq> G_SUCCESS then failed status s
             else if functions = fn_NONE c
             then Some (if callback then gcall (GCallback functions G_SUCCESS) s else s)
             else
               let (status, s) = validateAndSetVidPid c env functions s
               in if status \<noteq> G_SUCCESS then failed status s
                  else case setupFunctions c env functions callback inputs s of
                         None \<Rightarrow> None
                       | Some (status, s) \<Rightarrow> if status \<noteq> G_SUCCESS then failed status s else Some s)"

definition getCurrentUsbFunctions :: "gadget \<Rightarrow> gadget" where
  "getCurrentUsbFunctions s =
     gcall (GCurrentCallback (mCurrentUsbFunctions s)
       (if mCurrentUsbFunctionsApplied s then FUNCTIONS_APPLIED else FUNCTIONS_NOT_APPLIED)) s"

text \<open>
  The constructor. The initialiser list does not mention \<open>mCurrentUsbFunctions\<close>: it starts with an
  indeterminate value, an argument here; \<open>gadgetPullup\<close> is a global variable and starts as false.
\<close>

definition UsbGadget_constructor :: "u64 \<Rightarrow> gadget" where
  "UsbGadget_constructor garbage =
     gcall (GAccess (GADGET_PATH @ ''os_desc/b.1''))
       \<lparr>mCurrentUsbFunctions = garbage, mCurrentUsbFunctionsApplied = False, mMonitorCreated = False,
        mMonitor = None, mFds = False, mEndpointList = [], gadgetPullup = False, gadget_calls = []\<rparr>"

section \<open>Lemmas: what the operations add to the log\<close>

text \<open>\<open>steps P s t\<close>: from \<open>s\<close> to \<open>t\<close> only calls that satisfy \<open>P\<close> were made, and the request is the same.\<close>

definition steps :: "(gadget_call \<Rightarrow> bool) \<Rightarrow> gadget \<Rightarrow> gadget \<Rightarrow> bool" where
  "steps P s t \<longleftrightarrow> mCurrentUsbFunctions t = mCurrentUsbFunctions s
     \<and> (\<exists>xs. gadget_calls t = gadget_calls s @ xs \<and> list_all P xs)"

fun not_report :: "gadget_call \<Rightarrow> bool" where
  "not_report (GCallback _ _) = False"
| "not_report _ = True"

abbreviation silent :: "gadget \<Rightarrow> gadget \<Rightarrow> bool" where
  "silent \<equiv> steps not_report"

lemma steps_refl [simp]: "steps P s s"
  by (simp add: steps_def)

lemma steps_trans: "steps P s t \<Longrightarrow> steps P t u \<Longrightarrow> steps P s u"
  by (auto simp: steps_def)

lemma steps_fields [simp]:
  "steps P s (t\<lparr>mCurrentUsbFunctionsApplied := b\<rparr>) = steps P s t"
  "steps P s (t\<lparr>mMonitorCreated := b\<rparr>) = steps P s t"
  "steps P s (t\<lparr>mMonitor := mo\<rparr>) = steps P s t"
  "steps P s (t\<lparr>mFds := b\<rparr>) = steps P s t"
  "steps P s (t\<lparr>mEndpointList := l\<rparr>) = steps P s t"
  "steps P s (t\<lparr>gadgetPullup := b\<rparr>) = steps P s t"
  by (simp_all add: steps_def)

lemma steps_call: "P x \<Longrightarrow> steps P s (gcall x s)"
  by (simp add: steps_def)

lemma silent_call [simp]: "not_report x \<Longrightarrow> silent s t \<Longrightarrow> silent s (gcall x t)"
  using steps_trans steps_call by blast

text \<open>Calls that concern neither the framework nor the life of the monitor thread.\<close>

fun plain :: "gadget_call \<Rightarrow> bool" where
  "plain (GCallback _ _) = False"
| "plain GStartMonitor = False"
| "plain GStopMonitor = False"
| "plain GJoinMonitor = False"
| "plain _ = True"

lemma plain_not_report [simp]: "plain x \<Longrightarrow> not_report x"
  by (cases x) simp_all

section \<open>The interface of the quiet operations\<close>

text \<open>
  A relation between the states before and after that allows plain calls other than writes to the
  pull-up node, changes of the endpoint list and the pull-up of the monitor holds across every operation that
  neither reports nor starts or joins the monitor nor pulls the gadget down.
\<close>

fun pulls :: "gadget_call \<Rightarrow> bool" where
  "pulls (GWrite p x) \<longleftrightarrow> p = GADGET_PULLUP_PATH"
| "pulls _ \<longleftrightarrow> False"

lemma not_pullup_path [simp]:
  "VENDOR_ID_PATH \<noteq> GADGET_PULLUP_PATH" "PRODUCT_ID_PATH \<noteq> GADGET_PULLUP_PATH" "DESC_USE_PATH \<noteq> GADGET_PULLUP_PATH"
  "DEVICE_CLASS_PATH \<noteq> GADGET_PULLUP_PATH" "DEVICE_SUB_CLASS_PATH \<noteq> GADGET_PULLUP_PATH"
  "DEVICE_PROTOCOL_PATH \<noteq> GADGET_PULLUP_PATH"
  by (simp_all add: VENDOR_ID_PATH_def PRODUCT_ID_PATH_def DESC_USE_PATH_def DEVICE_CLASS_PATH_def
      DEVICE_SUB_CLASS_PATH_def DEVICE_PROTOCOL_PATH_def GADGET_PULLUP_PATH_def)

locale gadget_relation =
  fixes env :: gadget_env and R :: "gadget \<Rightarrow> gadget \<Rightarrow> bool"
  assumes R_refl [simp]: "R s s"
    and R_trans: "R s t \<Longrightarrow> R t u \<Longrightarrow> R s u"
    and R_call: "plain x \<Longrightarrow> \<not> pulls x \<Longrightarrow> R s (gcall x s)"
    and R_pull: "R s (snd (pull_up env m s))"
    and R_endpoints: "R s (s\<lparr>mEndpointList := l\<rparr>)"
begin

lemma R_call_after [intro]: "plain x \<Longrightarrow> \<not> pulls x \<Longrightarrow> R s t \<Longrightarrow> R s (gcall x t)"
  using R_trans R_call by blast

lemma R_write: "gadget_WriteStringToFile env x p s = (ok, t) \<Longrightarrow> p \<noteq> GADGET_PULLUP_PATH \<Longrightarrow> R s t"
  by (auto simp: gadget_WriteStringToFile_def)

lemma R_endpoints_present: "endpoints_present env es s = (b, t) \<Longrightarrow> R s t"
proof (induction es arbitrary: s)
  case (Cons e es)
  then show ?case
    by (auto simp: Let_def split: if_splits intro: R_trans [OF R_call [of "GAccess e"]])
qed simp

lemma R_pull_up: "pull_up env m s = (m', t) \<Longrightarrow> R s t"
  using R_pull [of s m] by simp

lemma R_inotify: "monitorFfs_inotify env now (m, s) = (m', t) \<Longrightarrow> R s t"
  by (auto simp: monitorFfs_inotify_def split: prod.splits if_splits
      dest: R_endpoints_present R_pull_up intro: R_trans)

lemma R_fold_inotify: "fold (monitorFfs_inotify env) ts (m, s) = (m', t) \<Longrightarrow> R s t"
proof (induction ts arbitrary: m s)
  case (Cons a ts)
  obtain m1 s1 where 1: "monitorFfs_inotify env a (m, s) = (m1, s1)" by fastforce
  with Cons show ?case by (auto intro: R_trans [OF R_inotify [OF 1]])
qed simp

lemma R_monitor: "monitorFfs_run env xs (m, s) = (m', t) \<Longrightarrow> R s t"
proof (induction xs arbitrary: m s)
  case (Cons x xs)
  show ?case
  proof (cases "stopMonitor m")
    case False
    obtain m1 s1 where 1: "monitorFfs_input env x (m, s) = (m1, s1)" by fastforce
    have "R s s1" using 1 by (cases x) (auto split: if_splits dest: R_fold_inotify)
    with Cons 1 False show ?thesis by (auto intro: R_trans)
  qed (use Cons.prems in auto)
qed simp

lemma R_begin: "monitorFfs_begin env s = (m, t) \<Longrightarrow> R s t"
  by (auto simp: monitorFfs_begin_def Let_def split: prod.splits if_splits
      dest: R_endpoints_present R_pull_up intro: R_trans)

lemma R_unlink_entries: "unlink_entries env path es s = Some (ok, t) \<Longrightarrow> R s t"
proof (induction es arbitrary: s)
  case (Cons e es)
  then show ?case
    by (auto simp: Let_def split: if_splits
        intro: R_trans [OF R_call [of "GRemove (path @ ''/'' @ c_str e)"]])
qed simp

lemma R_unlink: "unlinkFunctions env path s = Some (ok, t) \<Longrightarrow> R s t"
  by (auto simp: unlinkFunctions_def Let_def split: option.splits dest!: R_unlink_entries
      intro: R_trans [OF R_call [of "GOpenDir path"]])

lemma R_ensure:
  "ensure (ok, t) k = (st, u) \<Longrightarrow> R s t \<Longrightarrow> (\<And>st u. k t = (st, u) \<Longrightarrow> R t u) \<Longrightarrow> R s u"
  by (auto simp: ensure_def split: if_splits intro: R_trans)

lemma R_ensure_write:
  assumes "ensure (gadget_WriteStringToFile env x p s) k = (st, u)" and "p \<noteq> GADGET_PULLUP_PATH"
    and "\<And>t st u. k t = (st, u) \<Longrightarrow> R t u"
  shows "R s u"
proof -
  obtain ok t where "gadget_WriteStringToFile env x p s = (ok, t)" by fastforce
  with assms R_write [OF this assms(2)] show ?thesis by (auto intro: R_ensure)
qed

lemma R_vendor: "getVendorFunctions env s = (v, t) \<Longrightarrow> R s t"
  by (auto simp: getVendorFunctions_def Let_def split: if_splits)

lemma R_ids: "setVidPid env v p s = (st, t) \<Longrightarrow> R s t"
  by (auto simp: setVidPid_def elim!: R_ensure_write)

lemma R_validate: "validateAndSetVidPid c env f s = (st, t) \<Longrightarrow> R s t"
  by (auto simp: validateAndSetVidPid_def split: prod.splits option.splits if_splits
      dest!: R_vendor R_ids intro: R_trans)

lemma R_clear_nodes:
  "ensure (gadget_WriteStringToFile env ''0'' DEVICE_CLASS_PATH s) (\<lambda>s.
     ensure (gadget_WriteStringToFile env ''0'' DEVICE_SUB_CLASS_PATH s) (\<lambda>s.
     ensure (gadget_WriteStringToFile env ''0'' DEVICE_PROTOCOL_PATH s) (\<lambda>s.
     ensure (gadget_WriteStringToFile env ''0'' DESC_USE_PATH s) (\<lambda>s. (G_SUCCESS, s))))) = (st, t) \<Longrightarrow> R s t"
  by (auto elim!: R_ensure_write)

lemma R_two_calls: "plain x \<Longrightarrow> plain y \<Longrightarrow> \<not> pulls x \<Longrightarrow> \<not> pulls y \<Longrightarrow> R s (s\<lparr>gadget_calls := gadget_calls s @ [x, y]\<rparr>)"
  using R_trans [OF R_call [of x s] R_call [of y "gcall x s"]] by simp

lemma R_linkFunction: "linkFunction env f i s = Some (ok, t) \<Longrightarrow> R s t"
  by (auto simp: linkFunction_def Let_def R_two_calls split: if_splits)

lemma R_link_block: "link_block env f x = Some (ok, x') \<Longrightarrow> R (link_gadget x) (link_gadget x')"
  by (auto simp: link_block_def split: option.splits dest: R_linkFunction)

text \<open>Tear-down from the pull-down up to the end of the monitor, with what it returns.\<close>

lemma R_torn_down:
  assumes "tearDownGadget env late s = Some (st, t)"
  shows "\<exists>u. R (gcall (GWrite GADGET_PULLUP_PATH ''none'') s) u
    \<and> (if st = G_SUCCESS then t = stop_monitor env late u else t = u)"
proof -
  let ?s = "gcall (GWrite GADGET_PULLUP_PATH ''none'') s"
  have w: "snd (gadget_WriteStringToFile env ''none'' GADGET_PULLUP_PATH s) = ?s"
    by (simp add: gadget_WriteStringToFile_def)
  obtain st1 s1 where e: "ensure (gadget_WriteStringToFile env ''0'' DEVICE_CLASS_PATH ?s) (\<lambda>s.
      ensure (gadget_WriteStringToFile env ''0'' DEVICE_SUB_CLASS_PATH s) (\<lambda>s.
      ensure (gadget_WriteStringToFile env ''0'' DEVICE_PROTOCOL_PATH s) (\<lambda>s.
      ensure (gadget_WriteStringToFile env ''0'' DESC_USE_PATH s) (\<lambda>s. (G_SUCCESS, s))))) = (st1, s1)" by fastforce
  have s1: "R ?s s1" by (rule R_clear_nodes [OF e])
  show ?thesis
    using assms w e s1
    by (auto simp: tearDownGadget_def split: if_splits option.splits prod.splits
        intro: R_trans [OF s1 R_unlink] exI [of _ s1])
qed

end

text \<open>A relation that allows every plain call and every change of the bookkeeping.\<close>

locale quiet_relation =
  fixes R :: "gadget \<Rightarrow> gadget \<Rightarrow> bool"
  assumes any_refl [simp]: "R s s"
    and any_trans: "R s t \<Longrightarrow> R t u \<Longrightarrow> R s u"
    and plain_call: "plain x \<Longrightarrow> R s (gcall x s)"
    and any_applied: "R s (s\<lparr>mCurrentUsbFunctionsApplied := b\<rparr>)"
    and any_pullup: "R s (s\<lparr>gadgetPullup := b\<rparr>)"
    and any_endpoints: "R s (s\<lparr>mEndpointList := l\<rparr>)"
begin

lemma any_write: "gadget_WriteStringToFile env x p s = (ok, t) \<Longrightarrow> R s t"
  by (auto simp: gadget_WriteStringToFile_def plain_call)

lemma any_pull_up: "R s (snd (pull_up env m s))"
  by (auto simp: pull_up_def split: prod.splits dest: any_write
      intro: any_trans [OF any_trans [OF _ any_applied] any_pullup])

end

sublocale quiet_relation \<subseteq> gadget_relation env R for env
  by unfold_locales (auto intro: any_trans plain_call any_pull_up any_endpoints)

interpretation sq: quiet_relation silent
  by unfold_locales (auto intro: steps_trans steps_call)

lemmas silent_write = sq.any_write and silent_monitor = sq.R_monitor and silent_begin = sq.R_begin
  and silent_validate = sq.R_validate

lemma silent_stop_monitor: "silent s (stop_monitor env late s)"
proof (cases "mMonitor s")
  case (Some m)
  obtain m' t where r: "monitorFfs_run env (late @ [Flag 100]) (m, gcall GStopMonitor s) = (m', t)" by fastforce
  from steps_trans [OF steps_call silent_monitor [OF r]] Some show ?thesis
    by (simp add: stop_monitor_def Let_def r)
qed (simp add: stop_monitor_def Let_def steps_def)

lemma silent_tear_down: "tearDownGadget env late s = Some (st, t) \<Longrightarrow> silent s t"
proof -
  assume "tearDownGadget env late s = Some (st, t)"
  then obtain u where u: "silent (gcall (GWrite GADGET_PULLUP_PATH ''none'') s) u" "t = u \<or> t = stop_monitor env late u"
    using sq.R_torn_down by (metis (full_types))
  have "silent s u" by (rule steps_trans [OF steps_call u(1)]) simp
  with u(2) show ?thesis by (auto intro: steps_trans [OF _ silent_stop_monitor])
qed

section \<open>The interface of the linking blocks\<close>

text \<open>
  The blocks of \<open>setupFunctions\<close> only use a few primitive steps; a predicate that those keep is
  kept by the whole sequence of blocks.
\<close>

fun is_link :: "gadget_call \<Rightarrow> bool" where
  "is_link (GSymlink _ _) = True"
| "is_link _ = False"

locale block_invariant =
  fixes env :: gadget_env and I :: "linker \<Rightarrow> bool"
  assumes I_link: "I x \<Longrightarrow> link_block env f x = Some (ok, x') \<Longrightarrow> I x'"
    and I_ffs: "I x \<Longrightarrow> I (x\<lparr>ffsEnabled := True\<rparr>)"
    and I_call: "I x \<Longrightarrow> plain y \<Longrightarrow> \<not> is_link y \<Longrightarrow> \<not> pulls y \<Longrightarrow> I (on_gadget (gcall y) x)"
    and I_endpoints: "I x \<Longrightarrow> I (on_gadget (\<lambda>s. s\<lparr>mEndpointList := mEndpointList s @ es\<rparr>) x)"
begin

lemma I_ffs_block:
  assumes "I x" "ffs_block env d f es x = Some (ok, x')"
  shows "I x'"
proof -
  let ?x1 = "on_gadget (gcall (GWrite DESC_USE_PATH ''1'')) (x\<lparr>ffsEnabled := True\<rparr>)"
  have "I (x\<lparr>ffsEnabled := True\<rparr>)" by (rule I_ffs [OF assms(1)])
  then have 1: "I ?x1" by (rule I_call) simp_all
  then have 2: "I (on_gadget (gcall (GAddWatch d)) ?x1)" by (rule I_call) simp_all
  with 1 assms(2) show ?thesis
    by (auto simp: ffs_block_def gadget_WriteStringToFile_def Let_def split: if_splits option.splits prod.splits
        dest: I_link intro!: I_endpoints)
qed

lemma I_vendor_loop: "I x \<Longrightarrow> vendor_loop env fs x = Some (ok, x') \<Longrightarrow> I x'"
proof (induction fs arbitrary: x)
  case (Cons f fs)
  then show ?case by (auto split: if_splits option.splits prod.splits dest: I_link)
qed simp

lemma I_vendor_block:
  assumes "I x" "vendor_block env x = Some (ok, x')"
  shows "I x'"
proof -
  obtain v s where v: "getVendorFunctions env (link_gadget x) = (v, s)" by fastforce
  have "I (x\<lparr>link_gadget := s\<rparr>)"
    using v assms(1) I_call [OF assms(1), of "GSetProperty VENDOR_CONFIG v"]
    by (auto simp: getVendorFunctions_def Let_def split: if_splits)
  with v assms(2) show ?thesis
    by (auto simp: vendor_block_def Let_def split: if_splits dest: I_vendor_loop)
qed

definition keeps :: "(linker \<Rightarrow> (bool \<times> linker) option) \<Rightarrow> bool" where
  "keeps b \<longleftrightarrow> (\<forall>x ok x'. I x \<longrightarrow> b x = Some (ok, x') \<longrightarrow> I x')"

lemma keepsD: "keeps b \<Longrightarrow> I x \<Longrightarrow> b x = Some (ok, x') \<Longrightarrow> I x'"
  unfolding keeps_def by blast

lemma I_run_blocks: "list_all keeps bs \<Longrightarrow> I x \<Longrightarrow> run_blocks bs x = Some (ok, x') \<Longrightarrow> I x'"
proof (induction bs arbitrary: x)
  case (Cons b bs)
  obtain ok1 x1 where 1: "b x = Some (ok1, x1)" using Cons.prems(3) by (auto split: option.splits)
  then have "I x1" using Cons.prems(1,2) by (auto dest: keepsD)
  with Cons.IH [of x1] Cons.prems(1,3) 1 show ?case by (cases ok1) simp_all
qed simp

lemma keeps_blocks:
  "keeps (mtp_ptp_block c env functions)" "keeps (function_block env functions gf f)"
  "keeps (adb_block c env functions)" "keeps (vendor_block env)"
  by (auto simp: keeps_def mtp_ptp_block_def function_block_def adb_block_def split: if_splits
      dest: I_ffs_block I_link I_vendor_block)

lemma I_link_blocks: "I x \<Longrightarrow> run_blocks (link_blocks c env functions) x = Some (ok, x') \<Longrightarrow> I x'"
  by (rule I_run_blocks [of "link_blocks c env functions"]) (simp_all add: link_blocks_def keeps_blocks)

end

text \<open>Such a relation holds across the blocks; in particular they make no report to the framework.\<close>

sublocale gadget_relation \<subseteq> block: block_invariant env "\<lambda>x. R s (link_gadget x)" for s
  by unfold_locales (auto dest: R_link_block intro: R_trans [OF _ R_endpoints] R_trans)

text \<open>The links are numbered from 0 without a gap, one for each function linked.\<close>

fun links :: "gadget_call list \<Rightarrow> (string \<times> string) list" where
  "links [] = []"
| "links (GSymlink t l # xs) = (t, l) # links xs"
| "links (_ # xs) = links xs"

lemma links_append [simp]: "links (xs @ ys) = links xs @ links ys"
  by (induction xs rule: links.induct) simp_all

lemma links_none [simp]: "\<not> is_link y \<Longrightarrow> links [y] = []"
  by (cases y) simp_all

definition numbered :: "gadget_call list \<Rightarrow> linker \<Rightarrow> bool" where
  "numbered h x \<longleftrightarrow> (\<exists>xs. gadget_calls (link_gadget x) = h @ xs
     \<and> map snd (links xs) = map (\<lambda>i. FUNCTION_PATH @ decimal i) [0..<link_i x])"

lemma numbered_link:
  assumes "numbered h x" "link_block env f x = Some (ok, x')"
  shows "numbered h x'"
  using assms by (auto simp: numbered_def link_block_def linkFunction_def Let_def split: if_splits)

interpretation nb: block_invariant env "numbered h" for env h
proof
  fix x y assume "numbered h x" "\<not> is_link y"
  then show "numbered h (on_gadget (gcall y) x)" by (force simp: numbered_def)
qed (erule (1) numbered_link | simp add: numbered_def)+

section \<open>Lemmas: the path buffers\<close>

text \<open>\<open>keeps_index n b\<close>: block \<open>b\<close> does not overflow and makes at most \<open>n\<close> links.\<close>

definition keeps_index :: "nat \<Rightarrow> (linker \<Rightarrow> (bool \<times> linker) option) \<Rightarrow> bool" where
  "keeps_index n b \<longleftrightarrow> (\<forall>x. link_i x + n \<le> 150 \<longrightarrow>
     (\<exists>ok x'. b x = Some (ok, x') \<and> link_i x' \<le> link_i x + n))"

lemma keeps_indexD:
  "keeps_index n b \<Longrightarrow> link_i x + n \<le> 150 \<Longrightarrow> \<exists>ok x'. b x = Some (ok, x') \<and> link_i x' \<le> link_i x + n"
  by (simp add: keeps_index_def)

lemma keeps_index_link:
  assumes "length f \<le> 100"
  shows "keeps_index 1 (link_block env f)"
  unfolding keeps_index_def
proof (intro allI impI)
  fix x :: linker assume "link_i x + 1 \<le> 150"
  then have "length (decimal (link_i x)) \<le> 151" using length_decimal [of "link_i x"] by simp
  with assms have "\<not> (length (FUNCTIONS_PATH @ f) + 1 > MAX_FILE_PATH_LENGTH
      \<or> length (FUNCTION_PATH @ decimal (link_i x)) + 1 > MAX_FILE_PATH_LENGTH)"
    by (simp add: FUNCTIONS_PATH_def FUNCTION_PATH_def CONFIG_PATH_def FUNCTION_NAME_def GADGET_PATH_def
        MAX_FILE_PATH_LENGTH_def)
  then show "\<exists>ok x'. link_block env f x = Some (ok, x') \<and> link_i x' \<le> link_i x + 1"
    unfolding link_block_def linkFunction_def Let_def by (simp del: length_append)
qed

lemma keeps_index_ffs:
  assumes "length f \<le> 100"
  shows "keeps_index 1 (ffs_block env d f es)"
  unfolding keeps_index_def
proof (intro allI impI)
  fix x :: linker assume "link_i x + 1 \<le> 150"
  let ?x = "\<lambda>s. x\<lparr>ffsEnabled := True, link_gadget := s\<rparr>"
  have "\<exists>ok x'. link_block env f (?x s) = Some (ok, x') \<and> link_i x' \<le> link_i x + 1" for s
    using keeps_index_link [OF assms, of env] \<open>link_i x + 1 \<le> 150\<close> unfolding keeps_index_def
    by (metis linker.select_convs(1) linker.surjective linker.update_convs(2,3))
  note l = this [of "gcall (GAddWatch d) (gcall (GWrite DESC_USE_PATH ''1'') (link_gadget x))"]
  show "\<exists>ok x'. ffs_block env d f es x = Some (ok, x') \<and> link_i x' \<le> link_i x + 1"
    using l by (auto simp: ffs_block_def gadget_WriteStringToFile_def Let_def)
qed

lemma keeps_index_blocks:
  "list_all2 keeps_index ns bs \<Longrightarrow> keeps_index (sum_list ns) (run_blocks bs)"
proof (induction rule: list_all2_induct)
  case Nil
  then show ?case by (auto simp: keeps_index_def)
next
  case (Cons n ns b bs)
  show ?case unfolding keeps_index_def
  proof (intro allI impI)
    fix x :: linker assume x: "link_i x + sum_list (n # ns) \<le> 150"
    then obtain ok x1 where 1: "b x = Some (ok, x1)" "link_i x1 \<le> link_i x + n"
      using Cons(1) unfolding keeps_index_def by (metis add.assoc add_leD1 sum_list.Cons)
    then have "link_i x1 + sum_list ns \<le> 150" using x by simp
    then obtain ok' x2 where "run_blocks bs x1 = Some (ok', x2)" "link_i x2 \<le> link_i x1 + sum_list ns"
      using Cons.IH unfolding keeps_index_def by blast
    with 1 show "\<exists>ok x'. run_blocks (b # bs) x = Some (ok, x') \<and> link_i x' \<le> link_i x + sum_list (n # ns)"
      by (cases ok) auto
  qed
qed

lemma split_commas_length: "length (split_commas s p) \<le> length s + 1"
  by (induction s p rule: split_commas.induct) auto

lemma keeps_index_vendor_loop: "keeps_index (length fs) (vendor_loop env fs)"
proof (induction fs)
  case (Cons f fs)
  show ?case unfolding keeps_index_def
  proof (intro allI impI)
    fix x :: linker assume x: "link_i x + length (f # fs) \<le> 150"
    define target where "target = (if f = ''diag'' then Some ''diag.diag''
            else if f = ''serial_cdev'' then Some ''cser.dun.0''
            else if f = ''rmnet_gsi'' then Some ''gsi.rmnet'' else None)"
    have step: "vendor_loop env (f # fs) x = (case target of None \<Rightarrow> vendor_loop env fs x
        | Some target \<Rightarrow> (case link_block env target x of None \<Rightarrow> None
             | Some (ok, x) \<Rightarrow> if \<not> ok then Some (False, x) else vendor_loop env fs x))"
      by (simp add: target_def)
    show "\<exists>ok x'. vendor_loop env (f # fs) x = Some (ok, x') \<and> link_i x' \<le> link_i x + length (f # fs)"
    proof (cases target)
      case None
      have "link_i x + length fs \<le> 150" using x by simp
      then obtain ok x' where "vendor_loop env fs x = Some (ok, x')" "link_i x' \<le> link_i x + length fs"
        using Cons.IH unfolding keeps_index_def by blast
      with None show ?thesis unfolding step by simp
    next
      case (Some tg)
      then have "length tg \<le> 100" by (auto simp: target_def split: if_splits)
      from keeps_indexD [OF keeps_index_link [OF this, of env], of x] x obtain ok x1
        where 1: "link_block env tg x = Some (ok, x1)" "link_i x1 \<le> link_i x + 1" by auto
      then have "link_i x1 + length fs \<le> 150" using x by simp
      then obtain ok' x' where "vendor_loop env fs x1 = Some (ok', x')" "link_i x' \<le> link_i x1 + length fs"
        using Cons.IH unfolding keeps_index_def by blast
      with 1 Some show ?thesis unfolding step by (cases ok) auto
    qed
  qed
qed (auto simp: keeps_index_def)

lemma keeps_index_vendor:
  assumes "\<And>h k d. length (g_property env h k d) < 92"
  shows "keeps_index 92 (vendor_block env)"
  unfolding keeps_index_def
proof (intro allI impI)
  fix x :: linker assume x: "link_i x + 92 \<le> 150"
  obtain v s where v: "getVendorFunctions env (link_gadget x) = (v, s)" by fastforce
  let ?fs = "split_commas (c_str v) []" and ?x = "x\<lparr>link_gadget := s\<rparr>"
  have "length v < 92" using v assms by (auto simp: getVendorFunctions_def Let_def split: if_splits)
  moreover have "length (c_str v) \<le> length v" by (simp add: c_str_def length_takeWhile_le)
  ultimately have fs: "length ?fs \<le> 92" using split_commas_length [of "c_str v" "[]"] by simp
  then have "link_i ?x + length ?fs \<le> 150" using x by simp
  then obtain ok x' where "vendor_loop env ?fs ?x = Some (ok, x')" "link_i x' \<le> link_i ?x + length ?fs"
    using keeps_index_vendor_loop unfolding keeps_index_def by blast
  with v fs show "\<exists>ok x'. vendor_block env x = Some (ok, x') \<and> link_i x' \<le> link_i x + 92"
    by (auto simp: vendor_block_def Let_def)
qed

lemma keeps_index_skip: "keeps_index 1 (\<lambda>x. Some (True, x))"
  by (auto simp: keeps_index_def)

lemma keeps_index_if: "keeps_index n b1 \<Longrightarrow> keeps_index n b2 \<Longrightarrow> keeps_index n (\<lambda>x. if P then b1 x else b2 x)"
  by (simp add: keeps_index_def)

lemma link_blocks_total:
  assumes "\<And>h k d. length (g_property env h k d) < 92"
  shows "\<exists>ok x'. run_blocks (link_blocks c env functions) (x\<lparr>link_i := 0\<rparr>) = Some (ok, x')"
proof -
  have f: "keeps_index 1 (function_block env functions gf f)" if "length f \<le> 100" for gf f
    unfolding function_block_def [abs_def] by (intro keeps_index_if keeps_index_link keeps_index_skip that)
  have "keeps_index 1 (mtp_ptp_block c env functions)" "keeps_index 1 (adb_block c env functions)"
    unfolding mtp_ptp_block_def [abs_def] adb_block_def [abs_def]
    by (intro keeps_index_if keeps_index_ffs keeps_index_skip; simp)+
  with f keeps_index_vendor [OF assms] have "list_all2 keeps_index [1, 1, 1, 1, 1, 92, 1] (link_blocks c env functions)"
    by (simp add: link_blocks_def)
  from keeps_index_blocks [OF this] have "keeps_index 98 (run_blocks (link_blocks c env functions))" by simp
  from keeps_indexD [OF this, of "x\<lparr>link_i := 0\<rparr>"] show ?thesis by auto
qed

section \<open>Lemmas: which functions are linked\<close>

definition adds :: "(linker \<Rightarrow> (bool \<times> linker) option) \<Rightarrow> string list \<Rightarrow> bool" where
  "adds b fs \<longleftrightarrow> (\<forall>x x'. b x = Some (True, x') \<longrightarrow>
     (\<exists>xs. gadget_calls (link_gadget x') = gadget_calls (link_gadget x) @ xs
        \<and> map fst (links xs) = map (\<lambda>f. FUNCTIONS_PATH @ f) fs))"

lemma adds_skip: "adds (\<lambda>x. Some (True, x)) []"
  by (simp add: adds_def)

lemma adds_link: "adds (link_block env f) [f]"
  by (auto simp: adds_def link_block_def linkFunction_def Let_def split: option.splits if_splits)

lemma adds_ffs: "adds (ffs_block env d f es) [f]"
proof -
  have "\<exists>xs. gadget_calls (link_gadget x') = gadget_calls (link_gadget x) @ xs
      \<and> map fst (links xs) = [FUNCTIONS_PATH @ f]"
    if b: "ffs_block env d f es x = Some (True, x')" for x x'
  proof -
    let ?x = "on_gadget (gcall (GAddWatch d)) (on_gadget (gcall (GWrite DESC_USE_PATH ''1'')) (x\<lparr>ffsEnabled := True\<rparr>))"
    obtain x1 where 1: "link_block env f ?x = Some (True, x1)" "gadget_calls (link_gadget x') = gadget_calls (link_gadget x1)"
      using b by (auto simp: ffs_block_def gadget_WriteStringToFile_def Let_def split: if_splits option.splits)
    from adds_link [of env f, unfolded adds_def, rule_format, OF 1(1)]
    obtain xs where "gadget_calls (link_gadget x1) = gadget_calls (link_gadget ?x) @ xs"
      "map fst (links xs) = [FUNCTIONS_PATH @ f]" by auto
    with 1(2) show ?thesis by (intro exI [of _ "[GWrite DESC_USE_PATH ''1'', GAddWatch d] @ xs"]) simp
  qed
  then show ?thesis by (simp add: adds_def)
qed

lemma adds_if: "adds b1 fs1 \<Longrightarrow> adds b2 fs2 \<Longrightarrow> adds (\<lambda>x. if P then b1 x else b2 x) (if P then fs1 else fs2)"
  by (simp add: adds_def)

lemma adds_run: "list_all2 adds bs fss \<Longrightarrow> adds (run_blocks bs) (concat fss)"
proof (induction rule: list_all2_induct)
  case (Cons b bs fs fss)
  show ?case unfolding adds_def
  proof (intro allI impI)
    fix x x' assume r: "run_blocks (b # bs) x = Some (True, x')"
    then obtain x1 where 1: "b x = Some (True, x1)" and 2: "run_blocks bs x1 = Some (True, x')"
      by (auto split: option.splits if_splits)
    obtain xs where "gadget_calls (link_gadget x1) = gadget_calls (link_gadget x) @ xs"
      "map fst (links xs) = map (\<lambda>f. FUNCTIONS_PATH @ f) fs" using Cons(1) 1 unfolding adds_def by blast
    moreover obtain ys where "gadget_calls (link_gadget x') = gadget_calls (link_gadget x1) @ ys"
      "map fst (links ys) = map (\<lambda>f. FUNCTIONS_PATH @ f) (concat fss)" using Cons.IH 2 unfolding adds_def by blast
    ultimately show "\<exists>xs. gadget_calls (link_gadget x') = gadget_calls (link_gadget x) @ xs
        \<and> map fst (links xs) = map (\<lambda>f. FUNCTIONS_PATH @ f) (concat (fs # fss))"
      by (intro exI [of _ "xs @ ys"]) simp
  qed
qed (simp add: adds_def)

definition expected_functions :: "gadget_consts \<Rightarrow> u64 \<Rightarrow> string list" where
  "expected_functions c functions =
     (if functions AND fn_MTP c \<noteq> 0 then [''ffs.mtp''] else if functions AND fn_PTP c \<noteq> 0 then [''ffs.ptp''] else [])
     @ (if functions AND fn_MIDI c \<noteq> 0 then [''midi.gs5''] else [])
     @ (if functions AND fn_ACCESSORY c \<noteq> 0 then [''accessory.gs2''] else [])
     @ (if functions AND fn_AUDIO_SOURCE c \<noteq> 0 then [''audio_source.gs3''] else [])
     @ (if functions AND fn_RNDIS c \<noteq> 0 then [''rndis.gs4''] else [])
     @ (if functions AND fn_ADB c \<noteq> 0 then [''ffs.adb''] else [])"

lemma adds_link_blocks:
  assumes "\<And>h. g_property env h BUILD_TYPE '''' = ''user''"
  shows "adds (run_blocks (link_blocks c env functions)) (expected_functions c functions)"
proof -
  have f: "adds (function_block env functions gf f) (if functions AND gf \<noteq> 0 then [f] else [])" for gf f
    unfolding function_block_def [abs_def] by (intro adds_if adds_link adds_skip)
  have "adds (vendor_block env) []"
    using assms by (simp add: adds_def vendor_block_def getVendorFunctions_def Let_def c_str_def)
  moreover have "adds (mtp_ptp_block c env functions)
      (if functions AND fn_MTP c \<noteq> 0 then [''ffs.mtp''] else if functions AND fn_PTP c \<noteq> 0 then [''ffs.ptp''] else [])"
    "adds (adb_block c env functions) (if functions AND fn_ADB c \<noteq> 0 then [''ffs.adb''] else [])"
    unfolding mtp_ptp_block_def [abs_def] adb_block_def [abs_def] by (intro adds_if adds_ffs adds_skip)+
  ultimately have "list_all2 adds (link_blocks c env functions)
     [if functions AND fn_MTP c \<noteq> 0 then [''ffs.mtp''] else if functions AND fn_PTP c \<noteq> 0 then [''ffs.ptp''] else [],
      if functions AND fn_MIDI c \<noteq> 0 then [''midi.gs5''] else [],
      if functions AND fn_ACCESSORY c \<noteq> 0 then [''accessory.gs2''] else [],
      if functions AND fn_AUDIO_SOURCE c \<noteq> 0 then [''audio_source.gs3''] else [],
      if functions AND fn_RNDIS c \<noteq> 0 then [''rndis.gs4''] else [], [],
      if functions AND fn_ADB c \<noteq> 0 then [''ffs.adb''] else []]"
    using f by (simp add: link_blocks_def)
  from adds_run [OF this] show ?thesis by (simp add: expected_functions_def)
qed

section \<open>Lemmas: the monitor\<close>

fun all_accessible :: "gadget_env \<Rightarrow> string list \<Rightarrow> gadget_call list \<Rightarrow> bool" where
  "all_accessible env [] h = True"
| "all_accessible env (e # es) h \<longleftrightarrow> g_access env h e \<and> all_accessible env es (h @ [GAccess e])"

text \<open>
  The logs that the monitor can produce from \<open>h\<close>: checks of the endpoints, and pull-ups, each
  directly after a check that found all of them.
\<close>

inductive monitor_trace :: "gadget_env \<Rightarrow> string list \<Rightarrow> gadget_call list \<Rightarrow> gadget_call list \<Rightarrow> bool"
  for env :: gadget_env and eps :: "string list" and h :: "gadget_call list"
  where
    trace_start: "monitor_trace env eps h h"
  | trace_check: "monitor_trace env eps h h1 \<Longrightarrow> monitor_trace env eps h (h1 @ map GAccess (take k eps))"
  | trace_up: "monitor_trace env eps h h1 \<Longrightarrow> all_accessible env eps h1 \<Longrightarrow>
      monitor_trace env eps h (h1 @ map GAccess eps @ [GWrite GADGET_PULLUP_PATH name])"

lemma endpoints_present_spec:
  assumes "endpoints_present env es s = (b, t)"
  shows "(b \<longleftrightarrow> all_accessible env es (gadget_calls s))
    \<and> (\<exists>k. t = s\<lparr>gadget_calls := gadget_calls s @ map GAccess (take k es)\<rparr> \<and> (b \<longrightarrow> k = length es))"
  using assms
proof (induction es arbitrary: s)
  case (Cons e es)
  show ?case
  proof (cases "g_access env (gadget_calls s) e")
    case True
    with Cons.prems have "endpoints_present env es (gcall (GAccess e) s) = (b, t)" by simp
    from Cons.IH [OF this] True obtain k where "b \<longleftrightarrow> all_accessible env (e # es) (gadget_calls s)"
      "t = s\<lparr>gadget_calls := gadget_calls s @ map GAccess (take (Suc k) (e # es))\<rparr>" "b \<longrightarrow> Suc k = length (e # es)" by auto
    then show ?thesis by blast
  next
    case False
    with Cons.prems show ?thesis by (auto intro!: exI [of _ 1])
  qed
qed auto

text \<open>One check, with or without a pull-up.\<close>

lemma trace_of_check:
  assumes "monitor_trace env eps h (gadget_calls s)" "mEndpointList s = eps"
    and "endpoints_present env eps s = (b, t)"
  shows "monitor_trace env eps h (gadget_calls t) \<and> mEndpointList t = eps
    \<and> (b \<longrightarrow> (\<forall>m m' u. pull_up env m t = (m', u) \<longrightarrow> monitor_trace env eps h (gadget_calls u) \<and> mEndpointList u = eps))"
proof -
  obtain k where k: "b \<longleftrightarrow> all_accessible env eps (gadget_calls s)"
    "t = s\<lparr>gadget_calls := gadget_calls s @ map GAccess (take k eps)\<rparr>" "b \<longrightarrow> k = length eps"
    using endpoints_present_spec [OF assms(3)] by blast
  have "monitor_trace env eps h (gadget_calls t) \<and> mEndpointList t = eps"
    using trace_check [OF assms(1), of k] k(2) assms(2) by simp
  moreover have "monitor_trace env eps h (gadget_calls u) \<and> mEndpointList u = eps"
    if "b" and up: "pull_up env m t = (m', u)" for m m' u
  proof -
    have u: "gadget_calls u = gadget_calls s @ map GAccess eps @ [GWrite GADGET_PULLUP_PATH (GADGET_NAME env t)]"
      "mEndpointList u = eps"
      using up k that(1) assms(2)
      by (auto simp: pull_up_def gadget_WriteStringToFile_def split: if_splits)
    show ?thesis unfolding u(1) using trace_up [OF assms(1)] k(1) that(1) u(2) by simp
  qed
  ultimately show ?thesis by blast
qed

lemma trace_inotify:
  assumes "monitor_trace env eps h (gadget_calls s)" "mEndpointList s = eps"
    and "monitorFfs_inotify env now (m, s) = (m', t)"
  shows "monitor_trace env eps h (gadget_calls t) \<and> mEndpointList t = eps"
proof -
  obtain b u where e: "endpoints_present env eps s = (b, u)" by fastforce
  from trace_of_check [OF assms(1,2) e] assms(2,3) e show ?thesis
    by (auto simp: monitorFfs_inotify_def split: if_splits)
qed

lemma trace_fold_inotify:
  "fold (monitorFfs_inotify env) ts (m, s) = (m', t) \<Longrightarrow> monitor_trace env eps h (gadget_calls s) \<Longrightarrow>
   mEndpointList s = eps \<Longrightarrow> monitor_trace env eps h (gadget_calls t) \<and> mEndpointList t = eps"
proof (induction ts arbitrary: m s)
  case (Cons a ts)
  obtain m1 s1 where 1: "monitorFfs_inotify env a (m, s) = (m1, s1)" by fastforce
  from trace_inotify [OF Cons.prems(2,3) 1] Cons.IH [of m1 s1] Cons.prems(1) 1 show ?case by simp
qed simp

lemma trace_run:
  "monitorFfs_run env xs (m, s) = (m', t) \<Longrightarrow> monitor_trace env eps h (gadget_calls s) \<Longrightarrow>
   mEndpointList s = eps \<Longrightarrow> monitor_trace env eps h (gadget_calls t) \<and> mEndpointList t = eps"
proof (induction xs arbitrary: m s)
  case (Cons x xs)
  show ?case
  proof (cases "stopMonitor m")
    case False
    obtain m1 s1 where 1: "monitorFfs_input env x (m, s) = (m1, s1)" by fastforce
    have "monitor_trace env eps h (gadget_calls s1) \<and> mEndpointList s1 = eps"
      using 1 Cons.prems by (cases x) (auto split: if_splits dest: trace_fold_inotify)
    with Cons.IH [of m1 s1] Cons.prems(1) 1 False show ?thesis by simp
  qed (use Cons.prems in simp)
qed simp

section \<open>Lemmas: one report per request\<close>

fun reports :: "gadget_call list \<Rightarrow> (u64 \<times> gadget_status) list" where
  "reports [] = []"
| "reports (GCallback f st # xs) = (f, st) # reports xs"
| "reports (_ # xs) = reports xs"

lemma reports_append [simp]: "reports (xs @ ys) = reports xs @ reports ys"
  by (induction xs rule: reports.induct) simp_all

lemma reports_silent: "list_all not_report xs \<Longrightarrow> reports xs = []"
  by (induction xs rule: reports.induct) simp_all

lemma silent_reports: "silent s t \<Longrightarrow> reports (gadget_calls t) = reports (gadget_calls s)
    \<and> mCurrentUsbFunctions t = mCurrentUsbFunctions s"
  by (auto simp: steps_def reports_silent)

text \<open>Setting up reports once on success with a callback and never otherwise.\<close>

definition reported :: "gadget \<Rightarrow> gadget \<Rightarrow> u64 \<Rightarrow> bool \<Rightarrow> bool" where
  "reported s t functions yes \<longleftrightarrow> mCurrentUsbFunctions t = mCurrentUsbFunctions s
     \<and> (\<exists>st. reports (gadget_calls t) = reports (gadget_calls s) @ (if yes then [(functions, st)] else []))"

lemma silent_reported: "silent s t \<Longrightarrow> reported t u f yes \<Longrightarrow> reported s u f yes"
  using silent_reports by (fastforce simp: reported_def)

lemma reported_silent: "silent s t \<Longrightarrow> reported s t f False"
  using silent_reports by (fastforce simp: reported_def)

lemma reported_callback: "silent s t \<Longrightarrow> reported s (if yes then gcall (GCallback f st) t else t) f yes"
  using silent_reports [of s t] by (auto simp: reported_def)

lemma pull_up_now_reported:
  assumes "pull_up_now env f cb s = (st, t)"
  shows "reported s t f (cb \<and> st = G_SUCCESS)"
proof -
  obtain ok u where w: "gadget_WriteStringToFile env (GADGET_NAME env s) GADGET_PULLUP_PATH s = (ok, u)" by fastforce
  note su = silent_write [OF w]
  have t: "t = (if ok then (if cb then gcall (GCallback f G_SUCCESS) (u\<lparr>mCurrentUsbFunctionsApplied := True\<rparr>)
      else u\<lparr>mCurrentUsbFunctionsApplied := True\<rparr>) else u)" and st: "st = (if ok then G_SUCCESS else G_ERROR)"
    using assms by (auto simp: pull_up_now_def ensure_def w Let_def split: if_splits)
  show ?thesis
  proof (cases ok)
    case True
    have "silent s (u\<lparr>mCurrentUsbFunctionsApplied := True\<rparr>)" using su by simp
    from reported_callback [OF this, of cb f G_SUCCESS] True show ?thesis by (simp add: t st)
  next
    case False
    with su show ?thesis by (simp add: t st reported_silent)
  qed
qed

lemma start_monitor_reported:
  assumes "start_monitor env f cb inputs s = (st, t)"
  shows "reported s t f (cb \<and> st = G_SUCCESS)"
proof -
  have run: "reported s t f cb" if "silent s u"
    and t: "t = (if cb then let (m, s) = monitorFfs_run env inputs (monitorFfs_begin env u); s = s\<lparr>mMonitor := Some m\<rparr>
            in gcall (GCallback f (if gadgetPullup s then G_SUCCESS else G_ERROR)) s
          else let (m, s) = monitorFfs_begin env u in s\<lparr>mMonitor := Some m\<rparr>)" for u
  proof -
    obtain m1 s1 where 1: "monitorFfs_begin env u = (m1, s1)" by fastforce
    obtain m2 s2 where 2: "monitorFfs_run env inputs (m1, s1) = (m2, s2)" by fastforce
    have "silent s s1" using steps_trans [OF that(1) silent_begin [OF 1]] .
    moreover from steps_trans [OF this silent_monitor [OF 2]] have "silent s (s2\<lparr>mMonitor := Some m2\<rparr>)" by simp
    ultimately show ?thesis unfolding t 1 prod.case Let_def 2
      using reported_callback [of s "s2\<lparr>mMonitor := Some m2\<rparr>" True f] reported_silent [of s "s1\<lparr>mMonitor := Some m1\<rparr>" f]
      by simp
  qed
  let ?s4 = "gcall (GEpollAdd ''event'') (gcall (GEpollAdd ''inotify'') (gcall GEpollCreate (gcall GEventFd s)))"
  let ?u = "(gcall GStartMonitor (?s4\<lparr>mFds := True, gadgetPullup := False\<rparr>))\<lparr>mMonitorCreated := True\<rparr>"
  have quiet: "silent s (gcall GEventFd s)" "silent s (gcall GEpollCreate (gcall GEventFd s))"
    "silent s (gcall (GEpollAdd ''inotify'') (gcall GEpollCreate (gcall GEventFd s)))" "silent s ?s4" "silent s ?u"
    by (simp_all add: steps_def)
  show ?thesis using assms quiet(1-4) [THEN reported_silent] run [OF quiet(5)]
    by (auto simp: start_monitor_def addEpollFd_def ensure_def Let_def split: if_splits prod.splits)
qed

lemma setup_reported:
  assumes "setupFunctions c env f cb inputs s = Some (st, t)"
  shows "reported s t f (cb \<and> st = G_SUCCESS)"
proof -
  let ?s = "gcall GInotifyInit s" and ?x = "\<lparr>link_i = 0, ffsEnabled = False, link_gadget = gcall GInotifyInit s\<rparr>"
  have s: "silent s ?s" by (simp add: steps_def)
  show ?thesis
  proof (cases "g_inotify_init env (gadget_calls s)")
    case False
    with assms s show ?thesis by (auto simp: setupFunctions_def Let_def intro: reported_silent)
  next
    case True
    obtain ok x where r: "run_blocks (link_blocks c env f) ?x = Some (ok, x)"
      using assms True by (auto simp: setupFunctions_def Let_def split: option.splits)
    have "silent ?s (link_gadget x)" by (rule sq.block.I_link_blocks [OF _ r]) simp
    with s have q: "silent s (link_gadget x)" by (rule steps_trans)
    consider "\<not> ok" "(G_ERROR, link_gadget x) = (st, t)" | "pull_up_now env f cb (link_gadget x) = (st, t)"
      | "start_monitor env f cb inputs (link_gadget x) = (st, t)"
      using assms True r by (auto simp: setupFunctions_def Let_def split: if_splits)
    then show ?thesis
    proof cases
      case 1
      with q show ?thesis by (auto intro: reported_silent)
    next
      case 2
      from silent_reported [OF q pull_up_now_reported [OF 2]] show ?thesis .
    next
      case 3
      from silent_reported [OF q start_monitor_reported [OF 3]] show ?thesis .
    qed
  qed
qed

section \<open>Lemmas: tearing down and ids\<close>

lemma unlink_removes:
  "unlink_entries env path names s = Some (True, t) \<Longrightarrow>
   \<exists>ys. gadget_calls t = gadget_calls s @ ys
     \<and> (\<forall>d \<in> set names. find_from FUNCTION_NAME (c_str d) 0 \<noteq> None \<longrightarrow> GRemove (path @ ''/'' @ c_str d) \<in> set ys)"
proof (induction names arbitrary: s)
  case (Cons d names)
  show ?case
  proof (cases "find_from FUNCTION_NAME (c_str d) 0")
    case None
    with Cons show ?thesis by simp
  next
    case (Some k)
    with Cons.prems have "unlink_entries env path names (gcall (GRemove (path @ ''/'' @ c_str d)) s) = Some (True, t)"
      by (auto simp: Let_def split: if_splits)
    from Cons.IH [OF this] show ?thesis by auto
  qed
qed simp

lemma unlink_keeps_monitor:
  "unlink_entries env path names s = Some (ok, t) \<Longrightarrow> mMonitorCreated t = mMonitorCreated s \<and> mMonitor t = mMonitor s"
proof (induction names arbitrary: s)
  case (Cons d names)
  then show ?case by (fastforce simp: Let_def split: if_splits)
qed simp

text \<open>The state after the first five writes of \<open>tearDownGadget\<close>.\<close>

definition nodes_cleared :: "gadget \<Rightarrow> gadget" where
  "nodes_cleared s = s\<lparr>gadget_calls := gadget_calls s @ [GWrite GADGET_PULLUP_PATH ''none'',
     GWrite DEVICE_CLASS_PATH ''0'', GWrite DEVICE_SUB_CLASS_PATH ''0'', GWrite DEVICE_PROTOCOL_PATH ''0'',
     GWrite DESC_USE_PATH ''0'']\<rparr>"

lemma teardown_steps:
  assumes "tearDownGadget env late s = Some (G_SUCCESS, t)"
  obtains names u where "g_dir env (gadget_calls (nodes_cleared s)) CONFIG_PATH = Some names"
    "unlink_entries env CONFIG_PATH names (gcall (GOpenDir CONFIG_PATH) (nodes_cleared s)) = Some (True, u)"
    "t = stop_monitor env late u"
proof -
  obtain u where u: "unlinkFunctions env CONFIG_PATH (nodes_cleared s) = Some (True, u)" "t = stop_monitor env late u"
    using assms by (auto simp: tearDownGadget_def ensure_def gadget_WriteStringToFile_def nodes_cleared_def Let_def
        split: if_splits option.splits)
  with that show thesis by (auto simp: unlinkFunctions_def Let_def split: option.splits)
qed

lemma teardown_keeps_monitor:
  assumes "tearDownGadget env late s = Some (G_SUCCESS, t)"
  shows "\<exists>u. t = stop_monitor env late u \<and> mMonitorCreated u = mMonitorCreated s \<and> mMonitor u = mMonitor s"
proof (rule teardown_steps [OF assms])
  fix names u
  assume "unlink_entries env CONFIG_PATH names (gcall (GOpenDir CONFIG_PATH) (nodes_cleared s)) = Some (True, u)"
    and t: "t = stop_monitor env late u"
  from unlink_keeps_monitor [OF this(1)] t show ?thesis by (intro exI [of _ u]) (simp add: nodes_cleared_def)
qed

lemma no_user_vendor:
  assumes "vid_pid_entry c f = Some (vendor, strict, pid)"
  shows "map_of vendor ''user'' = None"
proof -
  have "\<forall>(v, s, p) \<in> set_option (vid_pid_entry c f). map_of v ''user'' = None"
    unfolding vid_pid_entry_def by simp
  with assms show ?thesis by auto
qed

lemma product_id_unique:
  assumes "vid_pid_entry c f' = Some (x, y, pid)" and "vid_pid_entry c f = Some (x', y', pid)"
  shows "f' = f"
  using assms unfolding vid_pid_entry_def by (auto split: if_splits)

section \<open>Properties\<close>

text \<open>
  C10: the framework is told the outcome exactly once. Whatever fails on the way, a request with a
  callback ends with exactly one report, for the requested functions, and one without a callback
  with none; the request is remembered in either case.
\<close>

theorem one_report_per_request:
  assumes r: "setCurrentUsbFunctions c env functions callback late inputs s = Some t"
  shows "mCurrentUsbFunctions t = functions
    \<and> (\<exists>st. reports (gadget_calls t) = reports (gadget_calls s) @ (if callback then [(functions, st)] else []))"
proof -
  let ?s = "s\<lparr>mCurrentUsbFunctions := functions, mCurrentUsbFunctionsApplied := False\<rparr>"
  obtain st1 s1 where 1: "tearDownGadget env late ?s = Some (st1, s1)"
    using r by (auto simp: setCurrentUsbFunctions_def Let_def split: option.splits)
  note q1 = silent_tear_down [OF 1]
  obtain st2 s2 where 2: "validateAndSetVidPid c env functions s1 = (st2, s2)" by fastforce
  have q2: "silent ?s s2" using q1 silent_validate [OF 2] by (rule steps_trans)
  have "reported ?s t functions callback"
  proof (cases "st1 = G_SUCCESS \<and> functions \<noteq> fn_NONE c \<and> st2 = G_SUCCESS")
    case False
    then obtain st u where "silent ?s u" "t = (if callback then gcall (GCallback functions st) u else u)"
      using r 1 2 q1 q2 by (auto simp: setCurrentUsbFunctions_def Let_def split: if_splits)
    with reported_callback show ?thesis by blast
  next
    case True
    then obtain st3 s3 where 3: "setupFunctions c env functions callback inputs s2 = Some (st3, s3)"
      using r 1 2 by (auto simp: setCurrentUsbFunctions_def Let_def split: option.splits)
    have t: "t = (if st3 \<noteq> G_SUCCESS \<and> callback then gcall (GCallback functions st3) s3 else s3)"
      using r 1 2 3 True by (auto simp: setCurrentUsbFunctions_def Let_def split: if_splits)
    have "reported ?s s3 functions (callback \<and> st3 = G_SUCCESS)"
      by (rule silent_reported [OF q2 setup_reported [OF 3]])
    then show ?thesis by (auto simp: t reported_def)
  qed
  then show ?thesis by (simp add: reported_def)
qed

text \<open>
  C20: the configuration holds exactly the requested functions. On a user build, when all blocks
  of \<open>setupFunctions\<close> succeed, the links made are \<open>function0\<close>, \<open>function1\<close>, \<dots> without a gap, and they
  point to the requested functions in the fixed order (MTP before PTP, ADB last).
\<close>

theorem linked_functions:
  assumes user: "\<And>h. g_property env h BUILD_TYPE '''' = ''user''"
    and r: "run_blocks (link_blocks c env functions) \<lparr>link_i = 0, ffsEnabled = False, link_gadget = s\<rparr> = Some (True, x)"
    and es: "es = expected_functions c functions"
  shows "\<exists>xs. gadget_calls (link_gadget x) = gadget_calls s @ xs \<and> link_i x = length es
    \<and> links xs = map (\<lambda>i. (FUNCTIONS_PATH @ es ! i, FUNCTION_PATH @ decimal i)) [0..<length es]"
proof -
  obtain xs where xs: "gadget_calls (link_gadget x) = gadget_calls s @ xs"
    "map fst (links xs) = map (\<lambda>f. FUNCTIONS_PATH @ f) es"
    using adds_link_blocks [OF user, of c "functions"] r unfolding adds_def es by fastforce
  have "numbered (gadget_calls s) \<lparr>link_i = 0, ffsEnabled = False, link_gadget = s\<rparr>"
    by (simp add: numbered_def)
  from nb.I_link_blocks [OF this r] xs(1)
  have n: "map snd (links xs) = map (\<lambda>i. FUNCTION_PATH @ decimal i) [0..<link_i x]" by (simp add: numbered_def)
  have len: "length (links xs) = length es" "link_i x = length es"
    using arg_cong [OF xs(2), of length] arg_cong [OF n, of length] by simp_all
  have "links xs ! i = (FUNCTIONS_PATH @ es ! i, FUNCTION_PATH @ decimal i)" if i: "i < length es" for i
  proof -
    have "fst (links xs ! i) = FUNCTIONS_PATH @ es ! i"
      using xs(2) len i by (metis length_map nth_map)
    moreover have "map snd (links xs) ! i = map (\<lambda>i. FUNCTION_PATH @ decimal i) [0..<link_i x] ! i" using n by simp
    then have "snd (links xs ! i) = FUNCTION_PATH @ decimal i" using len i by simp
    ultimately show ?thesis by (metis prod.collapse)
  qed
  then have "links xs = map (\<lambda>i. (FUNCTIONS_PATH @ es ! i, FUNCTION_PATH @ decimal i)) [0..<length es]"
    using len by (intro nth_equalityI) simp_all
  with xs(1) len show ?thesis by blast
qed

text \<open>
  C31: the fixed path buffers of \<open>linkFunction\<close> are large enough for every request and every
  vendor configuration that fits in a system property: setting up functions never overflows.
\<close>

theorem setup_never_overflows:
  assumes "\<And>h k d. length (g_property env h k d) < 92"
  shows "\<exists>r. setupFunctions c env functions callback inputs s = Some r"
proof -
  obtain ok x where "run_blocks (link_blocks c env functions)
      (\<lparr>link_i = 0, ffsEnabled = False, link_gadget = gcall GInotifyInit s\<rparr>\<lparr>link_i := 0\<rparr>) = Some (ok, x)"
    using link_blocks_total [OF assms] by blast
  then show ?thesis by (simp add: setupFunctions_def Let_def)
qed



text \<open>
  C32: the monitor never pulls the gadget up blindly. In every run of \<open>monitorFfs\<close>, whatever the
  events, a write of the controller's name comes directly after a check that found every endpoint
  on the list.
\<close>

theorem monitor_checks_endpoints:
  assumes "monitorFfs_run env inputs (monitorFfs_begin env s) = (m, t)"
  shows "monitor_trace env (mEndpointList s) (gadget_calls s) (gadget_calls t)"
proof -
  obtain m1 s1 where 1: "monitorFfs_begin env s = (m1, s1)" by fastforce
  obtain b u where e: "endpoints_present env (mEndpointList s) s = (b, u)" by fastforce
  from trace_of_check [OF trace_start refl e] 1 e
  have "monitor_trace env (mEndpointList s) (gadget_calls s) (gadget_calls s1) \<and> mEndpointList s1 = mEndpointList s"
    by (auto simp: monitorFfs_begin_def Let_def split: if_splits)
  with trace_run [OF assms [unfolded 1]] show ?thesis by blast
qed

text \<open>
  Tearing down races with the monitor. If the endpoints appear while the gadget is being
  taken apart, the monitor handles that event before it sees the request to stop and pulls the
  gadget up again: tear-down succeeds, and yet the functions count as applied.
\<close>

theorem late_pull_up:
  assumes "tearDownGadget env [Inotify [now]] s = Some (G_SUCCESS, t)"
    and "mMonitorCreated s" "mMonitor s = Some m" "writeUdc m" "\<not> stopMonitor m"
    and "\<And>h e. g_access env h e" "\<And>h x p. g_write env h x p"
  shows "mCurrentUsbFunctionsApplied t \<and> gadgetPullup t"
proof -
  obtain u where t: "t = stop_monitor env [Inotify [now]] u"
    and u: "mMonitorCreated u" "mMonitor u = Some m"
    using teardown_keeps_monitor [OF assms(1)] assms(2,3) by auto
  obtain b v where e: "endpoints_present env (mEndpointList u) (gcall GStopMonitor u) = (b, v)" by fastforce
  have "all_accessible env es h" for es h
    using assms(6) by (induction es arbitrary: h) simp_all
  with endpoints_present_spec [OF e] have b by simp
  with u e assms(4,5,7) show ?thesis
    by (auto simp: t stop_monitor_def Let_def monitorFfs_inotify_def pull_up_def gadget_WriteStringToFile_def
        split: prod.splits)
qed

section \<open>Witnesses\<close>

definition aosp_gadget :: gadget_consts where
  "aosp_gadget = \<lparr>fn_NONE = 0, fn_ADB = 1, fn_ACCESSORY = 2, fn_MTP = 4, fn_MIDI = 8, fn_PTP = 16,
     fn_RNDIS = 32, fn_AUDIO_SOURCE = 64\<rparr>"

text \<open>A user build on which every call succeeds.\<close>

definition happy_env :: gadget_env where
  "happy_env = \<lparr>g_write = (\<lambda>_ _ _. True), g_dir = (\<lambda>_ _. Some [''.'', ''function0'']), g_remove = (\<lambda>_ _. True),
     g_symlink = (\<lambda>_ _ _. True), g_property = (\<lambda>_ k d. if k = BUILD_TYPE then ''user'' else ''''),
     g_inotify_init = (\<lambda>_. True), g_add_watch = (\<lambda>_ _. True), g_eventfd = (\<lambda>_. True),
     g_epoll_create = (\<lambda>_. True), g_epoll_add = (\<lambda>_ _. True), g_access = (\<lambda>_ _. True)\<rparr>"

definition idle_gadget :: gadget where
  "idle_gadget = \<lparr>mCurrentUsbFunctions = 0, mCurrentUsbFunctionsApplied = False, mMonitorCreated = False,
     mMonitor = None, mFds = False, mEndpointList = [], gadgetPullup = False, gadget_calls = []\<rparr>"

definition waiting_gadget :: gadget where
  "waiting_gadget = idle_gadget\<lparr>mMonitorCreated := True, mFds := True, mEndpointList := [''/dev/usb-ffs/adb/ep1''],
     mMonitor := Some \<lparr>writeUdc = True, stopMonitor = False, disconnect = 0\<rparr>\<rparr>"

lemma happy_props: "g_property happy_env h BUILD_TYPE '''' = ''user''" "length (g_property happy_env h k d) < 92"
  by (simp_all add: happy_env_def)

lemma happy_teardown:
  "\<exists>t. tearDownGadget happy_env late s = Some (G_SUCCESS, t)"
  by (simp add: tearDownGadget_def ensure_def gadget_WriteStringToFile_def unlinkFunctions_def Let_def
      happy_env_def FUNCTION_NAME_def c_str_def CONFIG_PATH_def GADGET_PATH_def MAX_FILE_PATH_LENGTH_def)

theorem one_report_per_request_witness:
  "\<exists>t st. setCurrentUsbFunctions aosp_gadget happy_env 0 True [] [] idle_gadget = Some t
     \<and> reports (gadget_calls t) = [(0, st)]"
proof -
  obtain u where "tearDownGadget happy_env [] (idle_gadget\<lparr>mCurrentUsbFunctions := 0,
      mCurrentUsbFunctionsApplied := False\<rparr>) = Some (G_SUCCESS, u)" using happy_teardown by blast
  then have "\<exists>t. setCurrentUsbFunctions aosp_gadget happy_env 0 True [] [] idle_gadget = Some t"
    by (simp add: setCurrentUsbFunctions_def aosp_gadget_def Let_def)
  then obtain t where t: "setCurrentUsbFunctions aosp_gadget happy_env 0 True [] [] idle_gadget = Some t" ..
  from one_report_per_request [OF t] t show ?thesis by (simp add: idle_gadget_def)
qed

theorem linked_functions_witness:
  "\<exists>x xs. run_blocks (link_blocks aosp_gadget happy_env 5) \<lparr>link_i = 0, ffsEnabled = False, link_gadget = idle_gadget\<rparr>
       = Some (True, x) \<and> gadget_calls (link_gadget x) = gadget_calls idle_gadget @ xs
     \<and> links xs = [(FUNCTIONS_PATH @ ''ffs.mtp'', FUNCTION_PATH @ decimal 0), (FUNCTIONS_PATH @ ''ffs.adb'', FUNCTION_PATH @ decimal 1)]"
proof -
  have "case run_blocks (link_blocks aosp_gadget happy_env 5) \<lparr>link_i = 0, ffsEnabled = False, link_gadget = idle_gadget\<rparr> of
      Some (ok, x) \<Rightarrow> ok | None \<Rightarrow> False" by code_simp
  then obtain x where r: "run_blocks (link_blocks aosp_gadget happy_env 5)
      \<lparr>link_i = 0, ffsEnabled = False, link_gadget = idle_gadget\<rparr> = Some (True, x)"
    by (auto split: option.splits)
  have e: "expected_functions aosp_gadget 5 = [''ffs.mtp'', ''ffs.adb'']"
    by (simp add: expected_functions_def aosp_gadget_def)
  from linked_functions [OF happy_props(1) r refl] r show ?thesis by (auto simp: e)
qed

theorem setup_never_overflows_witness:
  "\<exists>r. setupFunctions aosp_gadget happy_env 5 True [] idle_gadget = Some r"
  by (rule setup_never_overflows [OF happy_props(2)])



theorem monitor_checks_endpoints_witness:
  "monitor_trace happy_env (mEndpointList waiting_gadget) (gadget_calls waiting_gadget)
     (gadget_calls (snd (monitorFfs_run happy_env [Inotify [3]] (monitorFfs_begin happy_env waiting_gadget))))"
proof -
  obtain m t where r: "monitorFfs_run happy_env [Inotify [3]] (monitorFfs_begin happy_env waiting_gadget) = (m, t)" by fastforce
  from monitor_checks_endpoints [OF this] r show ?thesis by simp
qed

theorem late_pull_up_witness:
  "\<exists>t. tearDownGadget happy_env [Inotify [3]] waiting_gadget = Some (G_SUCCESS, t) \<and> mCurrentUsbFunctionsApplied t"
proof -
  obtain t where t: "tearDownGadget happy_env [Inotify [3]] waiting_gadget = Some (G_SUCCESS, t)"
    using happy_teardown by blast
  have "mCurrentUsbFunctionsApplied t \<and> gadgetPullup t"
    by (rule late_pull_up [OF t, of "\<lparr>writeUdc = True, stopMonitor = False, disconnect = 0\<rparr>"])
      (simp_all add: waiting_gadget_def happy_env_def)
  with t show ?thesis by blast
qed

end
