(* ===== verification/Gadget_Session.thy ===== *)
theory Gadget_Session
  imports Usb_Gadget
begin

text \<open>
  The USB gadget of \<open>src/usb/UsbGadget.cpp\<close> over its whole life: any sequence of requests, resets and
  queries from the constructor on, with the monitor thread running in between. The state machine
  is shown to keep the invariant that ties the monitor thread, its descriptors and the flag
  \<open>mMonitorCreated\<close> together.
\<close>

section \<open>The state machine\<close>

fun is_inotify :: "monitor_input \<Rightarrow> bool" where
  "is_inotify (Inotify _) = True"
| "is_inotify (Flag _) = False"

inductive serve_step :: "gadget_consts \<Rightarrow> gadget_env \<Rightarrow> gadget \<Rightarrow> gadget \<Rightarrow> bool"
  for c :: gadget_consts and env :: gadget_env
  where
    request: "setCurrentUsbFunctions c env functions callback late inputs s = Some t \<Longrightarrow> serve_step c env s t"
  | query: "serve_step c env s (getCurrentUsbFunctions s)"
  | monitor: "mMonitor s = Some m \<Longrightarrow> list_all is_inotify xs \<Longrightarrow> monitorFfs_run env xs (m, s) = (m', t) \<Longrightarrow>
      serve_step c env s (t\<lparr>mMonitor := Some m'\<rparr>)"

inductive gadget_step :: "gadget_consts \<Rightarrow> gadget_env \<Rightarrow> gadget \<Rightarrow> gadget \<Rightarrow> bool"
  for c :: gadget_consts and env :: gadget_env
  where
    serve: "serve_step c env s t \<Longrightarrow> gadget_step c env s t"
  | reset: "gadget_reset env s = (st, t) \<Longrightarrow> gadget_step c env s t"

inductive_cases serve_stepE [elim]: "serve_step c env s t"
inductive_cases gadget_stepE: "gadget_step c env s t"

definition gadget_init :: "gadget \<Rightarrow> bool" where
  "gadget_init s \<longleftrightarrow> (\<exists>garbage. s = UsbGadget_constructor garbage)"

definition running_monitors :: "gadget_call list \<Rightarrow> int" where
  "running_monitors calls = int (count_list calls GStartMonitor) - int (count_list calls GJoinMonitor)"

definition gadget_inv :: "gadget \<Rightarrow> bool" where
  "gadget_inv s \<longleftrightarrow>
     running_monitors (gadget_calls s) = (if mMonitorCreated s then 1 else 0)
     \<and> (mMonitor s \<noteq> None \<longleftrightarrow> mMonitorCreated s) \<and> (mFds s \<longleftrightarrow> mMonitorCreated s)"

section \<open>Operations that leave the monitor alone\<close>

definition calm :: "gadget \<Rightarrow> gadget \<Rightarrow> bool" where
  "calm s t \<longleftrightarrow> mMonitorCreated t = mMonitorCreated s \<and> mMonitor t = mMonitor s \<and> mFds t = mFds s
     \<and> (\<exists>xs. gadget_calls t = gadget_calls s @ xs \<and> list_all plain xs)"

interpretation cq: quiet_relation calm
  by unfold_locales (auto simp: calm_def)

lemma running_monitors_append [simp]:
  "running_monitors (xs @ ys) = running_monitors xs + running_monitors ys"
  by (simp add: running_monitors_def)

lemma running_monitors_plain: "list_all plain xs \<Longrightarrow> running_monitors xs = 0"
proof (induction xs)
  case (Cons x xs)
  then show ?case by (cases x) (simp_all add: running_monitors_def)
qed (simp add: running_monitors_def)

lemma calm_inv: "calm s t \<Longrightarrow> gadget_inv s \<Longrightarrow> gadget_inv t"
  by (auto simp: calm_def gadget_inv_def running_monitors_plain)

lemma inv_fields [simp]:
  "gadget_inv (s\<lparr>mCurrentUsbFunctions := f\<rparr>) = gadget_inv s"
  "gadget_inv (s\<lparr>mCurrentUsbFunctionsApplied := b\<rparr>) = gadget_inv s"
  "gadget_inv (s\<lparr>mEndpointList := l\<rparr>) = gadget_inv s"
  by (simp_all add: gadget_inv_def)

lemma inv_report [simp]: "gadget_inv (gcall (GCallback f st) s) = gadget_inv s"
  by (simp add: gadget_inv_def running_monitors_def)

lemma inv_query: "gadget_inv s \<Longrightarrow> gadget_inv (getCurrentUsbFunctions s)"
  by (simp add: getCurrentUsbFunctions_def gadget_inv_def running_monitors_def)

lemma inv_stop_monitor:
  assumes "gadget_inv s"
  shows "gadget_inv (stop_monitor env late s) \<and> \<not> mMonitorCreated (stop_monitor env late s)"
proof (cases "mMonitorCreated s")
  case True
  then obtain m where m: "mMonitor s = Some m" using assms by (auto simp: gadget_inv_def)
  obtain m' t where r: "monitorFfs_run env (late @ [Flag 100]) (m, gcall GStopMonitor s) = (m', t)" by fastforce
  from cq.R_monitor [OF r] obtain xs where xs: "gadget_calls t = gadget_calls s @ GStopMonitor # xs" "list_all plain xs"
    by (auto simp: calm_def)
  have "running_monitors (GStopMonitor # xs @ [GJoinMonitor]) = -1"
    using running_monitors_plain [OF xs(2)] by (simp add: running_monitors_def)
  then show ?thesis
    using assms True m xs(1) by (simp add: stop_monitor_def Let_def r gadget_inv_def)
next
  case False
  with assms show ?thesis by (simp add: stop_monitor_def gadget_inv_def)
qed

lemma inv_tear_down:
  assumes "tearDownGadget env late s = Some (st, t)" and "gadget_inv s"
  shows "gadget_inv t \<and> (st = G_SUCCESS \<longrightarrow> \<not> mMonitorCreated t)"
proof -
  let ?s = "gcall (GWrite GADGET_PULLUP_PATH ''none'') s"
  have "gadget_inv ?s" by (rule calm_inv [OF cq.plain_call assms(2)]) simp
  then show ?thesis using cq.R_torn_down [OF assms(1)] inv_stop_monitor calm_inv by (fastforce split: if_splits)
qed

section \<open>Operations that start the monitor\<close>

lemma inv_started:
  assumes "gadget_inv s" "\<not> mMonitorCreated s"
    and "calm ((gcall GStartMonitor (s\<lparr>mFds := True, gadgetPullup := False\<rparr>))\<lparr>mMonitorCreated := True\<rparr>) t"
  shows "gadget_inv (t\<lparr>mMonitor := Some m\<rparr>)"
proof -
  obtain xs where "gadget_calls t = gadget_calls s @ GStartMonitor # xs" "list_all plain xs"
    using assms(3) by (auto simp: calm_def)
  moreover have "running_monitors (GStartMonitor # xs) = 1"
    using running_monitors_plain [OF calculation(2)] by (simp add: running_monitors_def)
  ultimately show ?thesis using assms by (auto simp: gadget_inv_def calm_def)
qed

lemma start_monitor_cases:
  assumes "start_monitor env f callback inputs s = (st, t)"
  obtains (failed) "calm s t"
  | (started) u v m where "calm s u"
      and "calm ((gcall GStartMonitor (u\<lparr>mFds := True, gadgetPullup := False\<rparr>))\<lparr>mMonitorCreated := True\<rparr>) v"
      and "t = v\<lparr>mMonitor := Some m\<rparr> \<or> (\<exists>r. t = gcall (GCallback f r) (v\<lparr>mMonitor := Some m\<rparr>))"
proof -
  let ?u = "s\<lparr>gadget_calls := gadget_calls s @ [GEventFd, GEpollCreate, GEpollAdd ''inotify'', GEpollAdd ''event'']\<rparr>"
  let ?w = "(gcall GStartMonitor (?u\<lparr>mFds := True, gadgetPullup := False\<rparr>))\<lparr>mMonitorCreated := True\<rparr>"
  obtain m0 v0 where b: "monitorFfs_begin env ?w = (m0, v0)" by fastforce
  obtain m1 v1 where r: "monitorFfs_run env inputs (m0, v0) = (m1, v1)" by fastforce
  have b': "calm ?w v0" by (rule cq.R_begin [OF b])
  have r': "calm ?w v1" by (rule cq.R_trans [OF b' cq.R_monitor [OF r]])
  have u: "calm s ?u" by (simp add: calm_def)
  consider "calm s t"
    | "t = v0\<lparr>mMonitor := Some m0\<rparr>"
    | r where "t = gcall (GCallback f r) (v1\<lparr>mMonitor := Some m1\<rparr>)"
    using assms b r
    by (auto simp: start_monitor_def addEpollFd_def ensure_def Let_def calm_def split: if_splits)
  then show ?thesis
    by cases (use failed started [OF u b'] started [OF u r'] in blast)+
qed

lemma inv_start_monitor:
  assumes "start_monitor env f callback inputs s = (st, t)" "gadget_inv s" "\<not> mMonitorCreated s"
  shows "gadget_inv t"
  using assms(1)
proof (cases rule: start_monitor_cases)
  case failed
  then show ?thesis using assms(2) by (rule calm_inv)
next
  case (started u v m)
  have "gadget_inv u" "\<not> mMonitorCreated u"
    using started(1) assms(2,3) calm_inv by (auto simp: calm_def)
  from inv_started [OF this started(2), of m] started(3) show ?thesis
    by (auto simp: gadget_inv_def running_monitors_def)
qed

lemma inv_pull_up_now:
  assumes "pull_up_now env f callback s = (st, t)" "gadget_inv s"
  shows "gadget_inv t"
proof -
  obtain ok u where w: "gadget_WriteStringToFile env (GADGET_NAME env s) GADGET_PULLUP_PATH s = (ok, u)" by fastforce
  have "gadget_inv u" using cq.any_write [OF w] assms(2) by (rule calm_inv)
  then show ?thesis using assms(1)
    by (auto simp: pull_up_now_def ensure_def w Let_def gadget_inv_def running_monitors_def split: if_splits)
qed

lemma inv_setup:
  assumes r: "setupFunctions c env f callback inputs s = Some (st, t)" and "gadget_inv s" "\<not> mMonitorCreated s"
  shows "gadget_inv t"
proof (cases "g_inotify_init env (gadget_calls s)")
  case False
  then have "calm s t" using r by (auto simp: setupFunctions_def calm_def)
  then show ?thesis using assms(2) by (rule calm_inv)
next
  case True
  let ?x = "\<lparr>link_i = 0, ffsEnabled = False, link_gadget = gcall GInotifyInit s\<rparr>"
  obtain ok x where x: "run_blocks (link_blocks c env f) ?x = Some (ok, x)"
    using r True by (auto simp: setupFunctions_def Let_def split: option.splits)
  have "calm s (link_gadget x)"
    by (rule cq.block.I_link_blocks [OF _ x]) (simp add: calm_def)
  then have "gadget_inv (link_gadget x)" "\<not> mMonitorCreated (link_gadget x)"
    using assms(2,3) calm_inv by (auto simp: calm_def)
  then show ?thesis
    using r True x inv_pull_up_now inv_start_monitor
    by (auto simp: setupFunctions_def Let_def split: if_splits)
qed

lemma inv_request:
  assumes "setCurrentUsbFunctions c env f callback late inputs s = Some t" "gadget_inv s"
  shows "gadget_inv t"
proof -
  let ?s = "s\<lparr>mCurrentUsbFunctions := f, mCurrentUsbFunctionsApplied := False\<rparr>"
  obtain st1 s1 where 1: "tearDownGadget env late ?s = Some (st1, s1)"
    using assms(1) by (auto simp: setCurrentUsbFunctions_def Let_def split: option.splits)
  have i1: "gadget_inv s1" "st1 = G_SUCCESS \<Longrightarrow> \<not> mMonitorCreated s1"
    using inv_tear_down [OF 1] assms(2) by simp_all
  obtain st2 s2 where 2: "validateAndSetVidPid c env f s1 = (st2, s2)" by fastforce
  have i2: "gadget_inv s2" "st1 = G_SUCCESS \<Longrightarrow> \<not> mMonitorCreated s2"
    using cq.R_validate [OF 2] i1 calm_inv by (auto simp: calm_def)
  show ?thesis
  proof (cases "st1 = G_SUCCESS \<and> f \<noteq> fn_NONE c \<and> st2 = G_SUCCESS")
    case False
    then show ?thesis using assms(1) 1 2 i1 i2
      by (auto simp: setCurrentUsbFunctions_def Let_def split: if_splits)
  next
    case True
    then obtain st3 s3 where 3: "setupFunctions c env f callback inputs s2 = Some (st3, s3)"
      using assms(1) 1 2 by (auto simp: setCurrentUsbFunctions_def Let_def split: option.splits)
    have "gadget_inv s3" using inv_setup [OF 3 i2(1)] i2(2) True by simp
    then show ?thesis using assms(1) 1 2 3 True
      by (auto simp: setCurrentUsbFunctions_def Let_def split: if_splits)
  qed
qed

section \<open>The invariant\<close>

lemma inv_reset: "gadget_reset env s = (st, t) \<Longrightarrow> gadget_inv s \<Longrightarrow> gadget_inv t"
  using calm_inv [OF cq.any_write] by (auto simp: gadget_reset_def split: prod.splits)

lemma inv_serve: "serve_step c env s t \<Longrightarrow> gadget_inv s \<Longrightarrow> gadget_inv t"
proof (erule serve_stepE)
  fix m xs m' u
  assume "mMonitor s = Some m" and r: "monitorFfs_run env xs (m, s) = (m', u)" and t: "t = u\<lparr>mMonitor := Some m'\<rparr>"
    and "gadget_inv s"
  then show "gadget_inv t"
    using calm_inv [OF cq.R_monitor [OF r]] cq.R_monitor [OF r] by (auto simp: gadget_inv_def calm_def)
qed (simp_all add: inv_request inv_query)

interpretation gs: transition_invariant gadget_init "gadget_step c env" gadget_inv for c env
proof
  fix s assume "gadget_init s"
  then show "gadget_inv s"
    by (auto simp: gadget_init_def UsbGadget_constructor_def gadget_inv_def running_monitors_def)
next
  fix s t assume "gadget_inv s" "gadget_step c env s t"
  then show "gadget_inv t" by (auto elim!: gadget_stepE intro: inv_serve inv_reset)
qed

section \<open>What the HAL says of the pull-up\<close>

text \<open>
  The gadget was pulled up, successfully and with the name of the controller, and has not been pulled down since.
  The code tells the two apart by what it writes, so no controller may have the name \<open>none\<close>.
\<close>

abbreviation controller :: "gadget_env \<Rightarrow> gadget_call list \<Rightarrow> string" where
  "controller env calls \<equiv> g_property env calls ''sys.usb.controller'' ''''"

definition controller_named :: "gadget_env \<Rightarrow> bool" where
  "controller_named env \<longleftrightarrow> (\<forall>calls. controller env calls \<noteq> ''none'')"

definition pulled_up :: "gadget_env \<Rightarrow> gadget_call list \<Rightarrow> bool" where
  "pulled_up env calls \<longleftrightarrow>
     (\<exists>xs ys. calls = xs @ GWrite GADGET_PULLUP_PATH (controller env xs) # ys
        \<and> g_write env xs (controller env xs) GADGET_PULLUP_PATH
        \<and> GWrite GADGET_PULLUP_PATH ''none'' \<notin> set ys)"

definition truthful :: "gadget_env \<Rightarrow> gadget \<Rightarrow> bool" where
  "truthful env s \<longleftrightarrow> (mCurrentUsbFunctionsApplied s \<longrightarrow> pulled_up env (gadget_calls s))"

definition upholds :: "gadget_env \<Rightarrow> gadget \<Rightarrow> gadget \<Rightarrow> bool" where
  "upholds env s t \<longleftrightarrow> (controller_named env \<longrightarrow> truthful env s \<longrightarrow> truthful env t)"

lemma pulled_up_append: "pulled_up env calls \<Longrightarrow> GWrite GADGET_PULLUP_PATH ''none'' \<notin> set zs \<Longrightarrow> pulled_up env (calls @ zs)"
  unfolding pulled_up_def by fastforce

lemma pulled_up_now:
  "g_write env calls (controller env calls) GADGET_PULLUP_PATH \<Longrightarrow>
     pulled_up env (calls @ [GWrite GADGET_PULLUP_PATH (controller env calls)])"
  unfolding pulled_up_def by fastforce

lemma truthful_fields [simp]:
  "truthful env (s\<lparr>mMonitor := m\<rparr>) = truthful env s" "truthful env (s\<lparr>mFds := b\<rparr>) = truthful env s"
  "truthful env (s\<lparr>mEndpointList := l\<rparr>) = truthful env s" "truthful env (s\<lparr>mMonitorCreated := b\<rparr>) = truthful env s"
  "truthful env (s\<lparr>gadgetPullup := b\<rparr>) = truthful env s" "truthful env (s\<lparr>mCurrentUsbFunctions := f\<rparr>) = truthful env s"
  by (simp_all add: truthful_def)

lemma truthful_calls:
  "truthful env s \<Longrightarrow> GWrite GADGET_PULLUP_PATH ''none'' \<notin> set zs \<Longrightarrow> truthful env (s\<lparr>gadget_calls := gadget_calls s @ zs\<rparr>)"
  by (simp add: truthful_def pulled_up_append)

lemma truthful_call: "x \<noteq> GWrite GADGET_PULLUP_PATH ''none'' \<Longrightarrow> truthful env s \<Longrightarrow> truthful env (gcall x s)"
  by (rule truthful_calls) auto

lemma truthful_write_name:
  assumes "controller_named env" "truthful env s"
    and "gadget_WriteStringToFile env (GADGET_NAME env s) GADGET_PULLUP_PATH s = (ok, t)"
  shows "truthful env t" "ok \<Longrightarrow> pulled_up env (gadget_calls t)"
  using assms pulled_up_now [of env "gadget_calls s"]
  by (auto simp: gadget_WriteStringToFile_def GADGET_NAME_def controller_named_def intro: truthful_call)

lemma truthful_pull_up: "controller_named env \<Longrightarrow> truthful env s \<Longrightarrow> truthful env (snd (pull_up env m s))"
  using truthful_write_name [of env s]
  by (auto simp: pull_up_def split: prod.splits) (simp add: truthful_def)

interpretation up: gadget_relation env "upholds env" for env
proof
  fix x s assume "plain x" "\<not> pulls x"
  then show "upholds env s (gcall x s)" by (auto simp: upholds_def intro: truthful_call)
qed (auto simp: upholds_def intro: truthful_pull_up)

lemma truthful_stop_monitor:
  assumes "controller_named env" "truthful env s"
  shows "truthful env (stop_monitor env late s)"
proof (cases "mMonitor s")
  case (Some m)
  obtain m' t where r: "monitorFfs_run env (late @ [Flag 100]) (m, gcall GStopMonitor s) = (m', t)" by fastforce
  have "truthful env t" using up.R_monitor [OF r] assms truthful_call by (auto simp: upholds_def)
  with Some r assms(2) show ?thesis by (simp add: stop_monitor_def Let_def truthful_call)
qed (use assms truthful_calls [of env s "[GStopMonitor, GJoinMonitor]"] in \<open>simp add: stop_monitor_def Let_def\<close>)

lemma truthful_tear_down:
  assumes n: "controller_named env" and "\<not> mCurrentUsbFunctionsApplied s" and r: "tearDownGadget env late s = Some (st, t)"
  shows "truthful env t"
proof -
  have "truthful env (gcall (GWrite GADGET_PULLUP_PATH ''none'') s)" using assms(2) by (simp add: truthful_def)
  with up.R_torn_down [OF r] n truthful_stop_monitor show ?thesis
    unfolding upholds_def by (metis (full_types))
qed

lemma truthful_start_monitor:
  assumes n: "controller_named env" and s: "truthful env s" and r: "start_monitor env f callback inputs s = (st, t)"
  shows "truthful env t"
proof -
  let ?u = "s\<lparr>gadget_calls := gadget_calls s @ [GEventFd, GEpollCreate, GEpollAdd ''inotify'', GEpollAdd ''event'']\<rparr>"
  let ?w = "(gcall GStartMonitor (?u\<lparr>mFds := True, gadgetPullup := False\<rparr>))\<lparr>mMonitorCreated := True\<rparr>"
  have w: "truthful env ?w"
    using truthful_calls [OF s, of "[GEventFd, GEpollCreate, GEpollAdd ''inotify'', GEpollAdd ''event'', GStartMonitor]"]
    by (simp add: truthful_def)
  obtain m0 v0 where b: "monitorFfs_begin env ?w = (m0, v0)" by fastforce
  obtain m1 v1 where run: "monitorFfs_run env inputs (m0, v0) = (m1, v1)" by fastforce
  have 0: "truthful env v0" using up.R_begin [OF b] n w by (simp add: upholds_def)
  have 1: "truthful env v1" using up.R_monitor [OF run] n 0 by (simp add: upholds_def)
  have 2: "truthful env (gcall (GCallback f x) (v1\<lparr>mMonitor := Some m1\<rparr>))" for x
    by (rule truthful_call) (use 1 in simp_all)
  from r b run 0 2 truthful_calls [OF s] show ?thesis
    by (auto simp: start_monitor_def addEpollFd_def ensure_def Let_def split: if_splits)
qed

lemma truthful_pull_up_now:
  assumes "controller_named env" "truthful env s" and r: "pull_up_now env f callback s = (st, t)"
  shows "truthful env t"
proof -
  obtain ok u where w: "gadget_WriteStringToFile env (GADGET_NAME env s) GADGET_PULLUP_PATH s = (ok, u)" by fastforce
  from truthful_write_name [OF assms(1,2) w] r w show ?thesis
    by (auto simp: pull_up_now_def ensure_def Let_def split: if_splits)
      (auto simp: truthful_def intro: pulled_up_append)
qed

lemma truthful_setup:
  assumes n: "controller_named env" and s: "truthful env s"
    and r: "setupFunctions c env f callback inputs s = Some (st, t)"
  shows "truthful env t"
proof (cases "g_inotify_init env (gadget_calls s)")
  case False
  then show ?thesis using r s by (auto simp: setupFunctions_def intro: truthful_call)
next
  case True
  let ?x = "\<lparr>link_i = 0, ffsEnabled = False, link_gadget = gcall GInotifyInit s\<rparr>"
  obtain ok x where x: "run_blocks (link_blocks c env f) ?x = Some (ok, x)"
    using r True by (auto simp: setupFunctions_def Let_def split: option.splits)
  have "upholds env (gcall GInotifyInit s) (link_gadget x)"
    by (rule up.block.I_link_blocks [OF _ x]) simp
  then have l: "truthful env (link_gadget x)" using n truthful_call [OF _ s] by (simp add: upholds_def)
  from r True x consider "t = link_gadget x" | "pull_up_now env f callback (link_gadget x) = (st, t)"
    | "start_monitor env f callback inputs (link_gadget x) = (st, t)"
    by (auto simp: setupFunctions_def Let_def split: if_splits)
  then show ?thesis
    by cases (use l truthful_pull_up_now [OF n l] truthful_start_monitor [OF n l] in simp_all)
qed

lemma truthful_request:
  assumes n: "controller_named env" and r: "setCurrentUsbFunctions c env f callback late inputs s = Some t"
  shows "truthful env t"
proof -
  let ?s = "s\<lparr>mCurrentUsbFunctions := f, mCurrentUsbFunctionsApplied := False\<rparr>"
  obtain st1 s1 where 1: "tearDownGadget env late ?s = Some (st1, s1)"
    using r by (auto simp: setCurrentUsbFunctions_def Let_def split: option.splits)
  have i1: "truthful env s1" using truthful_tear_down [OF n _ 1] by simp
  obtain st2 s2 where 2: "validateAndSetVidPid c env f s1 = (st2, s2)" by fastforce
  have i2: "truthful env s2" using up.R_validate [OF 2] n i1 by (simp add: upholds_def)
  have "truthful env s3" if "setupFunctions c env f callback inputs s2 = Some (st3, s3)" for st3 s3
    by (rule truthful_setup [OF n i2 that])
  with r 1 2 i1 i2 show ?thesis
    by (auto simp: setCurrentUsbFunctions_def Let_def split: if_splits option.splits prod.splits intro: truthful_call)
qed

lemma truthful_serve:
  assumes n: "controller_named env" and s: "truthful env s" and step: "serve_step c env s t"
  shows "truthful env t"
  using step
proof cases
  case (monitor m xs m' u)
  then show ?thesis using up.R_monitor [OF monitor(4)] n s by (simp add: upholds_def)
qed (use n s in \<open>auto simp: getCurrentUsbFunctions_def intro: truthful_request truthful_call\<close>)

interpretation gu: transition_invariant gadget_init "serve_step c env" "\<lambda>s. controller_named env \<longrightarrow> truthful env s" for c env
proof
  fix s assume "gadget_init s"
  then have "\<not> mCurrentUsbFunctionsApplied s" by (auto simp: gadget_init_def UsbGadget_constructor_def)
  then show "controller_named env \<longrightarrow> truthful env s" by (simp add: truthful_def)
qed (auto intro: truthful_serve)

section \<open>Properties\<close>

text \<open>
  C13: at most one monitor thread. After any sequence of requests, resets, queries and events from the
  constructor on, whatever fails in between, the threads started and not yet joined are one exactly
  when \<open>mMonitorCreated\<close> is set and none otherwise, and the event, epoll and inotify
  descriptors are open exactly as long as that thread runs.
\<close>

theorem one_monitor_thread:
  assumes "reachable gadget_init (gadget_step c env) s"
  shows "running_monitors (gadget_calls s) = (if mMonitorCreated s then 1 else 0)
    \<and> (mFds s \<longleftrightarrow> mMonitorCreated s) \<and> (mMonitor s \<noteq> None \<longleftrightarrow> mMonitorCreated s)"
  using gs.reachable_inv [OF assms] by (auto simp: gadget_inv_def)

lemma happy_write: "gadget_WriteStringToFile happy_env x p s = (True, gcall (GWrite p x) s)"
  by (simp add: gadget_WriteStringToFile_def happy_env_def)

lemma happy_adb_blocks:
  "\<exists>x. run_blocks (link_blocks aosp_gadget happy_env 1) \<lparr>link_i = 0, ffsEnabled = False, link_gadget = s\<rparr> = Some (True, x)
     \<and> ffsEnabled x"
  by (simp add: link_blocks_def mtp_ptp_block_def function_block_def vendor_block_def adb_block_def ffs_block_def
      link_block_def linkFunction_def getVendorFunctions_def aosp_gadget_def happy_write Let_def c_str_def
      FUNCTIONS_PATH_def FUNCTION_PATH_def CONFIG_PATH_def FUNCTION_NAME_def GADGET_PATH_def MAX_FILE_PATH_LENGTH_def
      decimal.simps) (simp add: happy_env_def)

lemma happy_start: "\<exists>t. start_monitor happy_env f True [] s = (G_SUCCESS, t) \<and> mMonitorCreated t"
proof -
  obtain m t where b: "monitorFfs_begin happy_env ((gcall GStartMonitor (s\<lparr>gadget_calls := gadget_calls s @
      [GEventFd, GEpollCreate, GEpollAdd ''inotify'', GEpollAdd ''event''], mFds := True,
      gadgetPullup := False\<rparr>))\<lparr>mMonitorCreated := True\<rparr>) = (m, t)" by fastforce
  from cq.R_begin [OF b] have "mMonitorCreated t" by (simp add: calm_def)
  with b show ?thesis by (simp add: start_monitor_def addEpollFd_def ensure_def happy_env_def Let_def)
qed

lemma happy_ids: "\<exists>t. validateAndSetVidPid aosp_gadget happy_env 1 s = (G_SUCCESS, t)"
  by (simp add: validateAndSetVidPid_def getVendorFunctions_def happy_props(1) vid_pid_entry_def aosp_gadget_def
      setVidPid_def ensure_def happy_write)

lemma happy_adb:
  "\<exists>t. setCurrentUsbFunctions aosp_gadget happy_env 1 True [] [] s = Some t \<and> mMonitorCreated t"
proof -
  obtain u where u: "tearDownGadget happy_env [] (s\<lparr>mCurrentUsbFunctions := 1,
      mCurrentUsbFunctionsApplied := False\<rparr>) = Some (G_SUCCESS, u)" using happy_teardown by blast
  obtain v where v: "validateAndSetVidPid aosp_gadget happy_env 1 u = (G_SUCCESS, v)" using happy_ids by blast
  obtain x where x: "run_blocks (link_blocks aosp_gadget happy_env 1)
      \<lparr>link_i = 0, ffsEnabled = False, link_gadget = gcall GInotifyInit v\<rparr> = Some (True, x)" "ffsEnabled x"
    using happy_adb_blocks by blast
  obtain t where t: "start_monitor happy_env 1 True [] (link_gadget x) = (G_SUCCESS, t)" "mMonitorCreated t"
    using happy_start by blast
  have "setupFunctions aosp_gadget happy_env 1 True [] v = Some (G_SUCCESS, t)"
    using x t by (simp add: setupFunctions_def Let_def) (simp add: happy_env_def)
  moreover have "fn_NONE aosp_gadget = 0" by (simp add: aosp_gadget_def)
  ultimately show ?thesis using u v t by (simp add: setCurrentUsbFunctions_def Let_def)
qed

theorem one_monitor_thread_witness:
  "\<exists>t. reachable gadget_init (gadget_step aosp_gadget happy_env) t \<and> mMonitorCreated t
     \<and> running_monitors (gadget_calls t) = 1 \<and> mFds t"
proof -
  obtain t where t: "setCurrentUsbFunctions aosp_gadget happy_env 1 True [] [] (UsbGadget_constructor 0) = Some t"
    and m: "mMonitorCreated t" using happy_adb by blast
  have "reachable gadget_init (gadget_step aosp_gadget happy_env) (UsbGadget_constructor 0)"
    by (rule reach_init) (auto simp: gadget_init_def)
  then have "reachable gadget_init (gadget_step aosp_gadget happy_env) t"
    by (rule reach_step) (rule serve [OF request [OF t]])
  from one_monitor_thread [OF this] this m show ?thesis by auto
qed



text \<open>
  A reset pulls the gadget down and nothing else: it neither stops the monitor nor forgets that
  the functions were applied, so a query after it still reports \<open>FUNCTIONS_APPLIED\<close>.
\<close>

theorem reset_still_applied:
  assumes "gadget_reset env s = (st, t)" and "mCurrentUsbFunctionsApplied s"
  shows "gadget_calls (getCurrentUsbFunctions t) =
      gadget_calls s @ [GWrite GADGET_PULLUP_PATH ''none'', GCurrentCallback (mCurrentUsbFunctions s) FUNCTIONS_APPLIED]
    \<and> mMonitor t = mMonitor s \<and> mMonitorCreated t = mMonitorCreated s"
  using assms by (auto simp: gadget_reset_def gadget_WriteStringToFile_def getCurrentUsbFunctions_def)

theorem reset_still_applied_witness:
  "\<exists>st t. gadget_reset happy_env (idle_gadget\<lparr>mCurrentUsbFunctionsApplied := True\<rparr>) = (st, t)
     \<and> last (gadget_calls (getCurrentUsbFunctions t)) = GCurrentCallback 0 FUNCTIONS_APPLIED"
proof -
  obtain st t where r: "gadget_reset happy_env (idle_gadget\<lparr>mCurrentUsbFunctionsApplied := True\<rparr>) = (st, t)"
    by fastforce
  from reset_still_applied [OF r] r show ?thesis by (simp add: idle_gadget_def)
qed

end
