(* ===== verification/Fingerprint.thy ===== *)
theory Fingerprint
  imports Cpp_String
begin

text \<open>
  The fingerprint HAL of \<open>src/fingerprint/BiometricsFingerprint.cpp\<close>: opening the vendor module,
  passing requests on to it, translating its error codes and handing its messages to the client.

  The codes of \<open>fingerprint.h\<close> are the record \<open>fp_consts\<close>; the module loader and the vendor
  library are the record \<open>fp_env\<close>. An \<open>int32_t\<close> is an \<open>int\<close>: the only arithmetic is the
  subtraction of the vendor base, shown not to leave the range.
\<close>

section \<open>Data\<close>

record fp_consts =
  FINGERPRINT_ERROR_HW_UNAVAILABLE :: int
  FINGERPRINT_ERROR_UNABLE_TO_PROCESS :: int
  FINGERPRINT_ERROR_TIMEOUT :: int
  FINGERPRINT_ERROR_NO_SPACE :: int
  FINGERPRINT_ERROR_CANCELED :: int
  FINGERPRINT_ERROR_UNABLE_TO_REMOVE :: int
  FINGERPRINT_ERROR_LOCKOUT :: int
  FINGERPRINT_ERROR_VENDOR_BASE :: int
  FINGERPRINT_ACQUIRED_GOOD :: int
  FINGERPRINT_ACQUIRED_PARTIAL :: int
  FINGERPRINT_ACQUIRED_INSUFFICIENT :: int
  FINGERPRINT_ACQUIRED_IMAGER_DIRTY :: int
  FINGERPRINT_ACQUIRED_TOO_SLOW :: int
  FINGERPRINT_ACQUIRED_TOO_FAST :: int
  FINGERPRINT_ACQUIRED_VENDOR_BASE :: int
  FINGERPRINT_HARDWARE_MODULE_ID :: string
  kVersion :: nat

datatype RequestStatus =
    SYS_UNKNOWN | SYS_OK | SYS_ENOENT | SYS_EINTR | SYS_EIO | SYS_EAGAIN | SYS_ENOMEM | SYS_EACCES
  | SYS_EFAULT | SYS_EBUSY | SYS_EINVAL | SYS_ENOSPC | SYS_ETIMEDOUT

datatype FingerprintError =
    ERROR_HW_UNAVAILABLE | ERROR_UNABLE_TO_PROCESS | ERROR_TIMEOUT | ERROR_NO_SPACE | ERROR_CANCELED
  | ERROR_UNABLE_TO_REMOVE | ERROR_LOCKOUT | ERROR_VENDOR

datatype FingerprintAcquiredInfo =
    ACQUIRED_GOOD | ACQUIRED_PARTIAL | ACQUIRED_INSUFFICIENT | ACQUIRED_IMAGER_DIRTY | ACQUIRED_TOO_SLOW
  | ACQUIRED_TOO_FAST | ACQUIRED_VENDOR

text \<open>A message of the vendor library; bytes of the authentication token as a list.\<close>

datatype fingerprint_msg =
    MsgError int
  | MsgAcquired int
  | MsgEnrolling u32 u32 u32
  | MsgRemoved u32 u32 u32
  | MsgAuthenticated u32 u32 "8 word list"
  | MsgEnumerating u32 u32 u32
  | MsgOther int

datatype fp_call =
    GetModule string
  | OpenDevice nat
  | RegisterNotify u64
  | CloseDevice u64
  | SetVendorProperty string
  | PreEnroll u64
  | Enroll u64 "8 word list" u32 u32
  | PostEnroll u64
  | GetAuthenticatorId u64
  | Cancel u64
  | Enumerate u64
  | Remove u64 u32 u32
  | SetActiveGroup u64 u32 string
  | Authenticate u64 u64 u32
  | OnError u64 FingerprintError int
  | OnAcquired u64 FingerprintAcquiredInfo int
  | OnEnrollResult u64 u32 u32 u32
  | OnRemoved u64 u32 u32 u32
  | OnAuthenticated u64 u32 u32 "8 word list"
  | OnEnumerate u64 u32 u32 u32

text \<open>
  \<open>hw_get_module\<close> gives an error code and a module (\<open>None\<close>: null); a module has an \<open>open\<close>
  method or not, and it gives an error code and a device; the vendor's answers depend on the
  calls made before.
\<close>

record fp_env =
  hw_get_module :: "string \<Rightarrow> int \<times> nat option"
  has_open :: "nat \<Rightarrow> bool"
  open_device :: "nat \<Rightarrow> int \<times> u64"
  device_version :: "u64 \<Rightarrow> nat"
  vendor_int :: "fp_call list \<Rightarrow> fp_call \<Rightarrow> int"
  vendor_u64 :: "fp_call list \<Rightarrow> fp_call \<Rightarrow> u64"
  can_write_path :: "string \<Rightarrow> bool"

text \<open>\<open>currentHal\<close> is an integer because the constructor may leave it uninitialised.\<close>

record fingerprint =
  mClientCallback :: bool
  mDevice :: "u64 option"
  currentHal :: int
  fp_calls :: "fp_call list"

abbreviation fcall :: "fp_call \<Rightarrow> fingerprint \<Rightarrow> fingerprint" where
  "fcall x s \<equiv> s\<lparr>fp_calls := fp_calls s @ [x]\<rparr>"

section \<open>Opening the module\<close>

text \<open>The enumeration \<open>FpHal\<close> of the header.\<close>

definition UNKNOWN :: int where [simp]: "UNKNOWN = 0"
definition FPC :: int where [simp]: "FPC = 1"
definition GOODIX :: int where [simp]: "GOODIX = 2"

definition fpHals :: "fp_consts \<Rightarrow> (int \<times> string) list" where
  "fpHals c = [(FPC, FINGERPRINT_HARDWARE_MODULE_ID c), (GOODIX, ''gf_fingerprint'')]"

text \<open>\<open>None\<close>: no case applies and the function has no return statement.\<close>

definition FpHalToString :: "int \<Rightarrow> string option" where
  "FpHalToString hal =
     (if hal = FPC then Some ''fpc'' else if hal = GOODIX then Some ''goodix'' else if hal = UNKNOWN then Some ''none''
      else None)"

definition openHal :: "fp_consts \<Rightarrow> fp_env \<Rightarrow> string \<Rightarrow> fingerprint \<Rightarrow> u64 option \<times> fingerprint" where
  "openHal c env hal s =
     (let (err, hw_mdl) = hw_get_module env (c_str hal); s = fcall (GetModule (c_str hal)) s
      in if err \<noteq> 0 then (None, s)
         else case hw_mdl of
                None \<Rightarrow> (None, s)
              | Some mdl \<Rightarrow>
                  if \<not> has_open env mdl then (None, s)
                  else
                    let (err, device) = open_device env mdl; s = fcall (OpenDevice mdl) s
                    in if err \<noteq> 0 then (None, s)
                       else if kVersion c \<noteq> device_version env device then (None, s)
                       else
                         let err = vendor_int env (fp_calls s) (RegisterNotify device);
                             s = fcall (RegisterNotify device) s
                         in if err \<noteq> 0 then (None, s) else (Some device, s))"

fun open_first :: "fp_consts \<Rightarrow> fp_env \<Rightarrow> (int \<times> string) list \<Rightarrow> fingerprint \<Rightarrow> fingerprint" where
  "open_first c env [] s = s"
| "open_first c env ((k, hal) # hals) s =
     (let (d, s) = openHal c env hal s; s = s\<lparr>mDevice := d\<rparr>
      in if d \<noteq> None then s\<lparr>currentHal := k\<rparr> else open_first c env hals s)"

text \<open>
  The constructor, with the indeterminate value of \<open>currentHal\<close>; \<open>None\<close> is the undefined
  behaviour of \<open>FpHalToString\<close>.
\<close>

definition BiometricsFingerprint :: "fp_consts \<Rightarrow> fp_env \<Rightarrow> int \<Rightarrow> fingerprint option" where
  "BiometricsFingerprint c env garbage =
     (let s = \<lparr>mClientCallback = False, mDevice = None, currentHal = garbage, fp_calls = []\<rparr>;
          s = open_first c env (fpHals c) s
      in case FpHalToString (currentHal s) of
           None \<Rightarrow> None
         | Some name \<Rightarrow> Some (fcall (SetVendorProperty name) s))"

definition destroy_BiometricsFingerprint :: "fp_env \<Rightarrow> fingerprint \<Rightarrow> fingerprint" where
  "destroy_BiometricsFingerprint env s =
     (case mDevice s of
        None \<Rightarrow> s
      | Some d \<Rightarrow>
          let err = vendor_int env (fp_calls s) (CloseDevice d); s = fcall (CloseDevice d) s
          in if err \<noteq> 0 then s else s\<lparr>mDevice := None\<rparr>)"

section \<open>Translating codes\<close>

definition ErrorFilter :: "int \<Rightarrow> RequestStatus" where
  "ErrorFilter error =
     (if error = 0 then SYS_OK
      else if error = -2 then SYS_ENOENT
      else if error = -4 then SYS_EINTR
      else if error = -5 then SYS_EIO
      else if error = -11 then SYS_EAGAIN
      else if error = -12 then SYS_ENOMEM
      else if error = -13 then SYS_EACCES
      else if error = -14 then SYS_EFAULT
      else if error = -16 then SYS_EBUSY
      else if error = -22 then SYS_EINVAL
      else if error = -28 then SYS_ENOSPC
      else if error = -110 then SYS_ETIMEDOUT
      else SYS_UNKNOWN)"

text \<open>The second component is \<open>*vendorCode\<close>.\<close>

definition VendorErrorFilter :: "fp_consts \<Rightarrow> int \<Rightarrow> FingerprintError \<times> int" where
  "VendorErrorFilter c error =
     (if error = FINGERPRINT_ERROR_HW_UNAVAILABLE c then (ERROR_HW_UNAVAILABLE, 0)
      else if error = FINGERPRINT_ERROR_UNABLE_TO_PROCESS c then (ERROR_UNABLE_TO_PROCESS, 0)
      else if error = FINGERPRINT_ERROR_TIMEOUT c then (ERROR_TIMEOUT, 0)
      else if error = FINGERPRINT_ERROR_NO_SPACE c then (ERROR_NO_SPACE, 0)
      else if error = FINGERPRINT_ERROR_CANCELED c then (ERROR_CANCELED, 0)
      else if error = FINGERPRINT_ERROR_UNABLE_TO_REMOVE c then (ERROR_UNABLE_TO_REMOVE, 0)
      else if error = FINGERPRINT_ERROR_LOCKOUT c then (ERROR_LOCKOUT, 0)
      else if error \<ge> FINGERPRINT_ERROR_VENDOR_BASE c
      then (ERROR_VENDOR, error - FINGERPRINT_ERROR_VENDOR_BASE c)
      else (ERROR_UNABLE_TO_PROCESS, 0))"

definition VendorAcquiredFilter :: "fp_consts \<Rightarrow> int \<Rightarrow> FingerprintAcquiredInfo \<times> int" where
  "VendorAcquiredFilter c info =
     (if info = FINGERPRINT_ACQUIRED_GOOD c then (ACQUIRED_GOOD, 0)
      else if info = FINGERPRINT_ACQUIRED_PARTIAL c then (ACQUIRED_PARTIAL, 0)
      else if info = FINGERPRINT_ACQUIRED_INSUFFICIENT c then (ACQUIRED_INSUFFICIENT, 0)
      else if info = FINGERPRINT_ACQUIRED_IMAGER_DIRTY c then (ACQUIRED_IMAGER_DIRTY, 0)
      else if info = FINGERPRINT_ACQUIRED_TOO_SLOW c then (ACQUIRED_TOO_SLOW, 0)
      else if info = FINGERPRINT_ACQUIRED_TOO_FAST c then (ACQUIRED_TOO_FAST, 0)
      else if info \<ge> FINGERPRINT_ACQUIRED_VENDOR_BASE c
      then (ACQUIRED_VENDOR, info - FINGERPRINT_ACQUIRED_VENDOR_BASE c)
      else (ACQUIRED_INSUFFICIENT, 0))"

section \<open>Requests\<close>

text \<open>
  The requests use \<open>mDevice\<close> without a check: \<open>None\<close> is the dereference of a null pointer.
\<close>

definition vendor_request ::
  "fp_env \<Rightarrow> (u64 \<Rightarrow> fp_call) \<Rightarrow> fingerprint \<Rightarrow> (RequestStatus \<times> fingerprint) option" where
  "vendor_request env x s =
     (case mDevice s of
        None \<Rightarrow> None
      | Some d \<Rightarrow> Some (ErrorFilter (vendor_int env (fp_calls s) (x d)), fcall (x d) s))"

definition vendor_query ::
  "fp_env \<Rightarrow> (u64 \<Rightarrow> fp_call) \<Rightarrow> fingerprint \<Rightarrow> (u64 \<times> fingerprint) option" where
  "vendor_query env x s =
     (case mDevice s of
        None \<Rightarrow> None
      | Some d \<Rightarrow> Some (vendor_u64 env (fp_calls s) (x d), fcall (x d) s))"

definition setNotify :: "bool \<Rightarrow> fingerprint \<Rightarrow> u64 \<times> fingerprint" where
  "setNotify clientCallback s =
     ((case mDevice s of None \<Rightarrow> 0 | Some d \<Rightarrow> d), s\<lparr>mClientCallback := clientCallback\<rparr>)"

definition preEnroll :: "fp_env \<Rightarrow> fingerprint \<Rightarrow> (u64 \<times> fingerprint) option" where
  "preEnroll env s = vendor_query env PreEnroll s"

definition enroll ::
  "fp_env \<Rightarrow> 8 word list \<Rightarrow> u32 \<Rightarrow> u32 \<Rightarrow> fingerprint \<Rightarrow> (RequestStatus \<times> fingerprint) option" where
  "enroll env hat gid timeoutSec s = vendor_request env (\<lambda>d. Enroll d hat gid timeoutSec) s"

definition postEnroll :: "fp_env \<Rightarrow> fingerprint \<Rightarrow> (RequestStatus \<times> fingerprint) option" where
  "postEnroll env s = vendor_request env PostEnroll s"

definition getAuthenticatorId :: "fp_env \<Rightarrow> fingerprint \<Rightarrow> (u64 \<times> fingerprint) option" where
  "getAuthenticatorId env s = vendor_query env GetAuthenticatorId s"

definition cancel :: "fp_env \<Rightarrow> fingerprint \<Rightarrow> (RequestStatus \<times> fingerprint) option" where
  "cancel env s = vendor_request env Cancel s"

definition enumerate_prints :: "fp_env \<Rightarrow> fingerprint \<Rightarrow> (RequestStatus \<times> fingerprint) option" where
  "enumerate_prints env s = vendor_request env Enumerate s"

definition remove_print :: "fp_env \<Rightarrow> u32 \<Rightarrow> u32 \<Rightarrow> fingerprint \<Rightarrow> (RequestStatus \<times> fingerprint) option" where
  "remove_print env gid fid s = vendor_request env (\<lambda>d. Remove d gid fid) s"

definition PATH_MAX :: nat where
  "PATH_MAX = 4096"

definition setActiveGroup ::
  "fp_env \<Rightarrow> u32 \<Rightarrow> string \<Rightarrow> fingerprint \<Rightarrow> (RequestStatus \<times> fingerprint) option" where
  "setActiveGroup env gid storePath s =
     (if length storePath \<ge> PATH_MAX \<or> length storePath \<le> 0 then Some (SYS_EINVAL, s)
      else if \<not> can_write_path env (c_str storePath) then Some (SYS_EINVAL, s)
      else vendor_request env (\<lambda>d. SetActiveGroup d gid (c_str storePath)) s)"

definition authenticate ::
  "fp_env \<Rightarrow> u64 \<Rightarrow> u32 \<Rightarrow> fingerprint \<Rightarrow> (RequestStatus \<times> fingerprint) option" where
  "authenticate env operationId gid s = vendor_request env (\<lambda>d. Authenticate d operationId gid) s"

section \<open>Messages\<close>

text \<open>
  \<open>getInstance\<close> on the static pointer \<open>sInstance\<close> (\<open>None\<close>: null), and \<open>notify\<close>, first on the
  instance it finds and then with the look-up of the instance. The device pointer in the
  messages is 0 when it is null.
\<close>

definition getInstance :: "fp_consts \<Rightarrow> fp_env \<Rightarrow> int \<Rightarrow> fingerprint option \<Rightarrow> fingerprint option" where
  "getInstance c env garbage sInstance =
     (case sInstance of None \<Rightarrow> BiometricsFingerprint c env garbage | Some s \<Rightarrow> Some s)"

definition notify_instance :: "fp_consts \<Rightarrow> fingerprint_msg \<Rightarrow> fingerprint \<Rightarrow> fingerprint" where
  "notify_instance c msg s =
     (if \<not> mClientCallback s then s
      else
        let devId = (case mDevice s of None \<Rightarrow> 0 | Some d \<Rightarrow> d)
        in case msg of
             MsgError e \<Rightarrow> let (result, vendorCode) = VendorErrorFilter c e in fcall (OnError devId result vendorCode) s
           | MsgAcquired i \<Rightarrow>
               let (result, vendorCode) = VendorAcquiredFilter c i in fcall (OnAcquired devId result vendorCode) s
           | MsgEnrolling fid gid rem \<Rightarrow> fcall (OnEnrollResult devId fid gid rem) s
           | MsgRemoved fid gid rem \<Rightarrow> fcall (OnRemoved devId fid gid rem) s
           | MsgAuthenticated fid gid hat \<Rightarrow>
               if fid \<noteq> 0 then fcall (OnAuthenticated devId fid gid hat) s
               else fcall (OnAuthenticated devId fid gid []) s
           | MsgEnumerating fid gid rem \<Rightarrow> fcall (OnEnumerate devId fid gid rem) s
           | MsgOther _ \<Rightarrow> s)"

definition notify ::
  "fp_consts \<Rightarrow> fp_env \<Rightarrow> int \<Rightarrow> fingerprint_msg \<Rightarrow> fingerprint option \<Rightarrow> fingerprint option" where
  "notify c env garbage msg sInstance =
     map_option (notify_instance c msg) (getInstance c env garbage sInstance)"

section \<open>Opening: lemmas\<close>

text \<open>The specification of a module that can be used: the device it gives.\<close>

definition usable_device :: "fp_consts \<Rightarrow> fp_env \<Rightarrow> fp_call list \<Rightarrow> string \<Rightarrow> u64 option" where
  "usable_device c env before hal =
     (let (err, hw_mdl) = hw_get_module env (c_str hal)
      in case hw_mdl of
           None \<Rightarrow> None
         | Some m \<Rightarrow>
             if err = 0 \<and> has_open env m \<and> fst (open_device env m) = 0
                \<and> device_version env (snd (open_device env m)) = kVersion c
                \<and> vendor_int env (before @ [GetModule (c_str hal), OpenDevice m])
                    (RegisterNotify (snd (open_device env m))) = 0
             then Some (snd (open_device env m)) else None)"

lemma openHal_result: "fst (openHal c env hal s) = usable_device c env (fp_calls s) hal"
  by (auto simp: openHal_def usable_device_def Let_def case_prod_beta' split: option.split)

lemma openHal_keeps:
  "mClientCallback (snd (openHal c env hal s)) = mClientCallback s
   \<and> currentHal (snd (openHal c env hal s)) = currentHal s"
  by (auto simp: openHal_def Let_def case_prod_beta' split: option.split)

lemma openHal_calls:
  "\<exists>ks. fp_calls (snd (openHal c env hal s)) = fp_calls s @ GetModule (c_str hal) # ks
        \<and> (\<forall>x \<in> set ks. \<forall>n. x \<noteq> GetModule n)"
  by (auto simp: openHal_def Let_def case_prod_beta' split: option.split)

lemma openHal_registers:
  "fst (openHal c env hal s) = Some d \<Longrightarrow> last (fp_calls (snd (openHal c env hal s))) = RegisterNotify d"
  by (auto simp: openHal_def Let_def case_prod_beta' split: option.splits if_splits)

definition modules_tried :: "fingerprint \<Rightarrow> string list" where
  "modules_tried s = List.map_filter (\<lambda>x. case x of GetModule n \<Rightarrow> Some n | _ \<Rightarrow> None) (fp_calls s)"

lemma modules_tried_openHal:
  "modules_tried (snd (openHal c env hal s)) = modules_tried s @ [c_str hal]"
  by (auto simp: modules_tried_def openHal_def Let_def case_prod_beta' List.map_filter_def split: option.split)

lemma modules_tried_cong: "fp_calls s = fp_calls t \<Longrightarrow> modules_tried s = modules_tried t"
  by (simp add: modules_tried_def)

text \<open>
  C34: the constructor opens the vendor modules in the order of \<open>fpHals\<close> and stops at the first
  usable one: an FPC sensor is taken without touching the Goodix module, the Goodix module
  only when the FPC module is not usable; the vendor property names the module taken. When
  neither is usable both have been tried, the device is null and \<open>currentHal\<close> keeps the
  indeterminate value it had.
\<close>

theorem first_usable_module:
  assumes "BiometricsFingerprint c env g = Some s"
  shows "case usable_device c env [] (FINGERPRINT_HARDWARE_MODULE_ID c) of
           Some d \<Rightarrow> mDevice s = Some d \<and> last (fp_calls s) = SetVendorProperty ''fpc''
                     \<and> modules_tried s = [c_str (FINGERPRINT_HARDWARE_MODULE_ID c)]
         | None \<Rightarrow>
             modules_tried s = [c_str (FINGERPRINT_HARDWARE_MODULE_ID c), ''gf_fingerprint'']
             \<and> (\<exists>before. case usable_device c env before ''gf_fingerprint'' of
                   Some d \<Rightarrow> mDevice s = Some d \<and> last (fp_calls s) = SetVendorProperty ''goodix''
                 | None \<Rightarrow> mDevice s = None \<and> currentHal s = g)"
proof -
  let ?id = "FINGERPRINT_HARDWARE_MODULE_ID c"
  let ?s0 = "\<lparr>mClientCallback = False, mDevice = None, currentHal = g, fp_calls = []\<rparr>"
  let ?s1 = "snd (openHal c env ?id ?s0)\<lparr>mDevice := None\<rparr>"
  let ?s2 = "snd (openHal c env ''gf_fingerprint'' ?s1)"
  have gf: "c_str ''gf_fingerprint'' = ''gf_fingerprint''" by (simp add: c_str_id)
  have m1: "modules_tried ?s1 = [c_str ?id]" "modules_tried (snd (openHal c env ?id ?s0)) = [c_str ?id]"
    by (simp_all add: modules_tried_cong [of ?s1 "snd (openHal c env ?id ?s0)"] modules_tried_openHal,
        simp_all add: modules_tried_def List.map_filter_def)
  have m2: "modules_tried ?s2 = [c_str ?id, ''gf_fingerprint'']"
    by (simp only: modules_tried_openHal m1 gf) simp
  have cons: "\<And>s x. modules_tried (s\<lparr>fp_calls := fp_calls s @ [SetVendorProperty x]\<rparr>) = modules_tried s"
    "\<And>s d k x. modules_tried (s\<lparr>mDevice := d, currentHal := k, fp_calls := fp_calls s @ [SetVendorProperty x]\<rparr>) = modules_tried s"
    "\<And>s d x. modules_tried (s\<lparr>mDevice := d, fp_calls := fp_calls s @ [SetVendorProperty x]\<rparr>) = modules_tried s"
    by (simp_all add: modules_tried_def List.map_filter_def)
  show ?thesis
  proof (cases "usable_device c env [] ?id")
    case (Some d)
    then have "fst (openHal c env ?id ?s0) = Some d" by (simp add: openHal_result)
    with assms Some show ?thesis
      by (auto simp: BiometricsFingerprint_def fpHals_def Let_def case_prod_beta' FpHalToString_def cons m1)
  next
    case None
    then have n: "fst (openHal c env ?id ?s0) = None" by (simp add: openHal_result)
    show ?thesis
    proof (cases "usable_device c env (fp_calls ?s1) ''gf_fingerprint''")
      case None': None
      then have "fst (openHal c env ''gf_fingerprint'' ?s1) = None" by (simp add: openHal_result)
      with assms n None None' show ?thesis
        by (auto simp: BiometricsFingerprint_def fpHals_def Let_def case_prod_beta' cons m2 openHal_keeps
            intro!: exI [of _ "fp_calls ?s1"] split: option.splits)
    next
      case (Some d)
      then have "fst (openHal c env ''gf_fingerprint'' ?s1) = Some d" by (simp add: openHal_result)
      with assms n None Some show ?thesis
        by (auto simp: BiometricsFingerprint_def fpHals_def Let_def case_prod_beta' FpHalToString_def cons m2
            intro!: exI [of _ "fp_calls ?s1"])
    qed
  qed
qed

section \<open>Codes: lemmas\<close>

definition vendor_errors :: "fp_consts \<Rightarrow> (FingerprintError \<times> int) list" where
  "vendor_errors c =
     [(ERROR_HW_UNAVAILABLE, FINGERPRINT_ERROR_HW_UNAVAILABLE c),
      (ERROR_UNABLE_TO_PROCESS, FINGERPRINT_ERROR_UNABLE_TO_PROCESS c),
      (ERROR_TIMEOUT, FINGERPRINT_ERROR_TIMEOUT c), (ERROR_NO_SPACE, FINGERPRINT_ERROR_NO_SPACE c),
      (ERROR_CANCELED, FINGERPRINT_ERROR_CANCELED c),
      (ERROR_UNABLE_TO_REMOVE, FINGERPRINT_ERROR_UNABLE_TO_REMOVE c),
      (ERROR_LOCKOUT, FINGERPRINT_ERROR_LOCKOUT c)]"

definition vendor_acquired :: "fp_consts \<Rightarrow> (FingerprintAcquiredInfo \<times> int) list" where
  "vendor_acquired c =
     [(ACQUIRED_GOOD, FINGERPRINT_ACQUIRED_GOOD c), (ACQUIRED_PARTIAL, FINGERPRINT_ACQUIRED_PARTIAL c),
      (ACQUIRED_INSUFFICIENT, FINGERPRINT_ACQUIRED_INSUFFICIENT c),
      (ACQUIRED_IMAGER_DIRTY, FINGERPRINT_ACQUIRED_IMAGER_DIRTY c),
      (ACQUIRED_TOO_SLOW, FINGERPRINT_ACQUIRED_TOO_SLOW c), (ACQUIRED_TOO_FAST, FINGERPRINT_ACQUIRED_TOO_FAST c)]"

text \<open>What \<open>fingerprint.h\<close> promises of its codes: they are not negative and below the vendor bases.\<close>

definition fp_consts_ok :: "fp_consts \<Rightarrow> bool" where
  "fp_consts_ok c \<longleftrightarrow>
     list_all (\<lambda>(_, e). 0 \<le> e \<and> e < FINGERPRINT_ERROR_VENDOR_BASE c) (vendor_errors c)
     \<and> list_all (\<lambda>(_, i). 0 \<le> i \<and> i < FINGERPRINT_ACQUIRED_VENDOR_BASE c) (vendor_acquired c)"

text \<open>The vendor's code that a client can read back from an error and a vendor code.\<close>

definition error_read_back :: "fp_consts \<Rightarrow> FingerprintError \<Rightarrow> int \<Rightarrow> int" where
  "error_read_back c r v =
     (case map_of (vendor_errors c) r of Some e \<Rightarrow> e | None \<Rightarrow> FINGERPRINT_ERROR_VENDOR_BASE c + v)"

definition acquired_read_back :: "fp_consts \<Rightarrow> FingerprintAcquiredInfo \<Rightarrow> int \<Rightarrow> int" where
  "acquired_read_back c r v =
     (case map_of (vendor_acquired c) r of Some i \<Rightarrow> i | None \<Rightarrow> FINGERPRINT_ACQUIRED_VENDOR_BASE c + v)"

definition known_error :: "fp_consts \<Rightarrow> int \<Rightarrow> bool" where
  "known_error c e \<longleftrightarrow> e \<in> set (map snd (vendor_errors c)) \<or> FINGERPRINT_ERROR_VENDOR_BASE c \<le> e"

definition known_acquired :: "fp_consts \<Rightarrow> int \<Rightarrow> bool" where
  "known_acquired c i \<longleftrightarrow> i \<in> set (map snd (vendor_acquired c)) \<or> FINGERPRINT_ACQUIRED_VENDOR_BASE c \<le> i"

lemma VendorErrorFilter_cases:
  "VendorErrorFilter c e = (r, v) \<Longrightarrow>
     (if known_error c e then error_read_back c r v = e else r = ERROR_UNABLE_TO_PROCESS) \<and>
     0 \<le> v \<and> (v \<noteq> 0 \<longrightarrow> r = ERROR_VENDOR \<and> v = e - FINGERPRINT_ERROR_VENDOR_BASE c)"
  by (auto simp: VendorErrorFilter_def known_error_def error_read_back_def vendor_errors_def split: if_splits)

lemma VendorAcquiredFilter_cases:
  "VendorAcquiredFilter c e = (r, v) \<Longrightarrow>
     (if known_acquired c e then acquired_read_back c r v = e else r = ACQUIRED_INSUFFICIENT) \<and>
     0 \<le> v \<and> (v \<noteq> 0 \<longrightarrow> r = ACQUIRED_VENDOR \<and> v = e - FINGERPRINT_ACQUIRED_VENDOR_BASE c)"
  by (auto simp: VendorAcquiredFilter_def known_acquired_def acquired_read_back_def vendor_acquired_def
      split: if_splits)

text \<open>
  C35: no information of the vendor library is lost in the translation of its codes. Every known
  error and every vendor-specific error can be read back from the pair handed to the client,
  an unknown one becomes \<open>ERROR_UNABLE_TO_PROCESS\<close>, and the subtraction of the vendor base stays
  within an \<open>int32_t\<close>; the same holds of the acquired codes.
\<close>

theorem vendor_codes_read_back:
  assumes ok: "fp_consts_ok c" and range: "- (2 ^ 31) \<le> e" "e < 2 ^ 31"
    and err: "VendorErrorFilter c e = (r, v)" and acq: "VendorAcquiredFilter c e = (a, w)"
  shows "(if known_error c e then error_read_back c r v = e else r = ERROR_UNABLE_TO_PROCESS \<and> v = 0)
    \<and> (if known_acquired c e then acquired_read_back c a w = e else a = ACQUIRED_INSUFFICIENT \<and> w = 0)
    \<and> 0 \<le> v \<and> v < 2 ^ 31 \<and> 0 \<le> w \<and> w < 2 ^ 31"
proof -
  have "0 \<le> FINGERPRINT_ERROR_VENDOR_BASE c" "0 \<le> FINGERPRINT_ACQUIRED_VENDOR_BASE c"
    using ok by (auto simp: fp_consts_ok_def vendor_errors_def vendor_acquired_def)
  then show ?thesis
    using VendorErrorFilter_cases [OF err] VendorAcquiredFilter_cases [OF acq] range by auto
qed

text \<open>The codes of \<open>fingerprint.h\<close>, for evaluation.\<close>

definition fp_consts_example :: fp_consts where
  "fp_consts_example =
     \<lparr>FINGERPRINT_ERROR_HW_UNAVAILABLE = 1, FINGERPRINT_ERROR_UNABLE_TO_PROCESS = 2,
      FINGERPRINT_ERROR_TIMEOUT = 3, FINGERPRINT_ERROR_NO_SPACE = 4, FINGERPRINT_ERROR_CANCELED = 5,
      FINGERPRINT_ERROR_UNABLE_TO_REMOVE = 6, FINGERPRINT_ERROR_LOCKOUT = 7,
      FINGERPRINT_ERROR_VENDOR_BASE = 1000, FINGERPRINT_ACQUIRED_GOOD = 0,
      FINGERPRINT_ACQUIRED_PARTIAL = 1, FINGERPRINT_ACQUIRED_INSUFFICIENT = 2,
      FINGERPRINT_ACQUIRED_IMAGER_DIRTY = 3, FINGERPRINT_ACQUIRED_TOO_SLOW = 4,
      FINGERPRINT_ACQUIRED_TOO_FAST = 5, FINGERPRINT_ACQUIRED_VENDOR_BASE = 1000,
      FINGERPRINT_HARDWARE_MODULE_ID = ''fingerprint'', kVersion = 513\<rparr>"

definition fp_env_example :: "fp_env" where
  "fp_env_example =
     \<lparr>hw_get_module = (\<lambda>n. if n = ''gf_fingerprint'' then (0, Some 4) else (-2, None)),
      has_open = (\<lambda>_. True), open_device = (\<lambda>_. (0, 77)), device_version = (\<lambda>_. 513),
      vendor_int = (\<lambda>_ _. 0), vendor_u64 = (\<lambda>_ _. 9), can_write_path = (\<lambda>_. True)\<rparr>"

lemmas fp_example_defs = fp_consts_example_def fp_env_example_def

theorem vendor_codes_read_back_witness:
  "fp_consts_ok fp_consts_example
   \<and> VendorErrorFilter fp_consts_example 1012 = (ERROR_VENDOR, 12)
   \<and> VendorAcquiredFilter fp_consts_example 1012 = (ACQUIRED_VENDOR, 12)
   \<and> error_read_back fp_consts_example ERROR_VENDOR 12 = 1012
   \<and> acquired_read_back fp_consts_example ACQUIRED_VENDOR 12 = 1012"
proof -
  have o: "fp_consts_ok fp_consts_example"
    by (simp add: fp_consts_ok_def fp_consts_example_def vendor_errors_def vendor_acquired_def)
  have e: "VendorErrorFilter fp_consts_example 1012 = (ERROR_VENDOR, 12)"
    and a: "VendorAcquiredFilter fp_consts_example 1012 = (ACQUIRED_VENDOR, 12)"
    by (simp_all add: VendorErrorFilter_def VendorAcquiredFilter_def fp_consts_example_def)
  have k: "known_error fp_consts_example 1012" "known_acquired fp_consts_example 1012"
    by (simp_all add: known_error_def known_acquired_def fp_consts_example_def)
  show ?thesis using vendor_codes_read_back [OF o _ _ e a] k o e a by simp
qed

theorem first_usable_module_witness:
  "(\<exists>s. BiometricsFingerprint fp_consts_example fp_env_example 5 = Some s
        \<and> mDevice s = Some 77 \<and> modules_tried s = [''fingerprint'', ''gf_fingerprint''])"
proof -
  obtain s where s: "BiometricsFingerprint fp_consts_example fp_env_example 5 = Some s"
    by (simp add: BiometricsFingerprint_def fpHals_def openHal_def FpHalToString_def fp_example_defs c_str_def)
  have u: "usable_device fp_consts_example fp_env_example [] ''fingerprint'' = None"
    "\<And>b. usable_device fp_consts_example fp_env_example b ''gf_fingerprint'' = Some 77"
    by (simp_all add: usable_device_def fp_example_defs c_str_def)
  have i: "FINGERPRINT_HARDWARE_MODULE_ID fp_consts_example = ''fingerprint''" "c_str ''fingerprint'' = ''fingerprint''"
    by (simp_all add: fp_consts_example_def c_str_def)
  show ?thesis using first_usable_module [OF s] s by (simp add: i u)
qed

text \<open>
  A request reports \<open>SYS_OK\<close> exactly when the vendor library returned 0, and two different
  return values are reported alike only as \<open>SYS_UNKNOWN\<close>.
\<close>

theorem status_distinguishes_errors:
  "(ErrorFilter e = SYS_OK \<longleftrightarrow> e = 0) \<and> (ErrorFilter e = ErrorFilter f \<longrightarrow> ErrorFilter e = SYS_UNKNOWN \<or> e = f)"
  by (auto simp: ErrorFilter_def split: if_splits)


theorem status_distinguishes_errors_witness:
  "ErrorFilter (-5) = SYS_EIO \<and> ErrorFilter (-7) = SYS_UNKNOWN \<and> ErrorFilter (-5) \<noteq> ErrorFilter (-4)"
  using status_distinguishes_errors [of "-5" "-4"] by (simp add: ErrorFilter_def)

section \<open>Messages: lemmas\<close>

definition known_message :: "fingerprint_msg \<Rightarrow> bool" where
  "known_message msg = (case msg of MsgOther _ \<Rightarrow> False | _ \<Rightarrow> True)"

text \<open>
  The specification of a delivery: the callback that reports a message of the vendor library on a
  device. A finger that was not recognised carries no authentication token.
\<close>

inductive reports_message :: "fp_consts \<Rightarrow> u64 \<Rightarrow> fingerprint_msg \<Rightarrow> fp_call \<Rightarrow> bool" for c :: fp_consts and dev :: u64 where
  report_error:
    "known_error c e \<Longrightarrow> error_read_back c r v = e \<Longrightarrow> r = ERROR_VENDOR \<or> v = 0 \<Longrightarrow>
     reports_message c dev (MsgError e) (OnError dev r v)"
| report_unknown_error: "\<not> known_error c e \<Longrightarrow> reports_message c dev (MsgError e) (OnError dev ERROR_UNABLE_TO_PROCESS 0)"
| report_acquired:
    "known_acquired c i \<Longrightarrow> acquired_read_back c r v = i \<Longrightarrow> r = ACQUIRED_VENDOR \<or> v = 0 \<Longrightarrow>
     reports_message c dev (MsgAcquired i) (OnAcquired dev r v)"
| report_unknown_acquired:
    "\<not> known_acquired c i \<Longrightarrow> reports_message c dev (MsgAcquired i) (OnAcquired dev ACQUIRED_INSUFFICIENT 0)"
| report_enrolling: "reports_message c dev (MsgEnrolling fid gid rem) (OnEnrollResult dev fid gid rem)"
| report_removed: "reports_message c dev (MsgRemoved fid gid rem) (OnRemoved dev fid gid rem)"
| report_recognised: "fid \<noteq> 0 \<Longrightarrow> reports_message c dev (MsgAuthenticated fid gid hat) (OnAuthenticated dev fid gid hat)"
| report_not_recognised: "reports_message c dev (MsgAuthenticated 0 gid hat) (OnAuthenticated dev 0 gid [])"
| report_enumerating: "reports_message c dev (MsgEnumerating fid gid rem) (OnEnumerate dev fid gid rem)"

lemmas [intro] = reports_message.intros

inductive_cases reports_authenticatedE: "reports_message c dev (MsgAuthenticated fid gid hat) x"

lemma notify_instance_fields [simp]:
  "mClientCallback (notify_instance c msg s) = mClientCallback s"
  "mDevice (notify_instance c msg s) = mDevice s"
  by (simp_all add: notify_instance_def Let_def case_prod_beta' split: fingerprint_msg.split)

lemma VendorErrorFilter_reports:
  "VendorErrorFilter c e = (r, v) \<Longrightarrow> reports_message c dev (MsgError e) (OnError dev r v)"
  using VendorErrorFilter_cases [of c e r v] by (cases "known_error c e") auto

lemma VendorAcquiredFilter_reports:
  "VendorAcquiredFilter c i = (r, v) \<Longrightarrow> reports_message c dev (MsgAcquired i) (OnAcquired dev r v)"
  using VendorAcquiredFilter_cases [of c i r v] by (cases "known_acquired c i") auto

lemma notify_instance_reports:
  assumes "mClientCallback s" "mDevice s = Some dev"
  shows "\<exists>cs. fp_calls (notify_instance c msg s) = fp_calls s @ cs
              \<and> list_all2 (reports_message c dev) (filter known_message [msg]) cs"
  using assms
  by (auto simp: notify_instance_def known_message_def Let_def case_prod_beta'
      intro!: VendorErrorFilter_reports VendorAcquiredFilter_reports split: fingerprint_msg.split)

fun notify_all :: "fp_consts \<Rightarrow> fp_env \<Rightarrow> int \<Rightarrow> fingerprint_msg list \<Rightarrow> fingerprint option \<Rightarrow> fingerprint option" where
  "notify_all c env g [] i = i"
| "notify_all c env g (m # ms) i = notify_all c env g ms (notify c env g m i)"

lemma notify_all_reports:
  assumes "mClientCallback s" "mDevice s = Some dev"
  shows "\<exists>cs t. notify_all c env g msgs (Some s) = Some t \<and> fp_calls t = fp_calls s @ cs
              \<and> list_all2 (reports_message c dev) (filter known_message msgs) cs"
  using assms
proof (induction msgs arbitrary: s)
  case Nil
  then show ?case by simp
next
  case (Cons m ms)
  obtain c1 where c1: "fp_calls (notify_instance c m s) = fp_calls s @ c1"
      "list_all2 (reports_message c dev) (filter known_message [m]) c1"
    using notify_instance_reports [OF Cons.prems] by blast
  obtain c2 t where "notify_all c env g ms (Some (notify_instance c m s)) = Some t"
      "fp_calls t = fp_calls (notify_instance c m s) @ c2" "list_all2 (reports_message c dev) (filter known_message ms) c2"
    using Cons.IH [of "notify_instance c m s"] Cons.prems by auto
  moreover have "list_all2 (reports_message c dev) (filter known_message [m] @ filter known_message ms) (c1 @ c2)"
    using c1 calculation by (intro list_all2_appendI)
  ultimately show ?case
    using c1 by (auto simp: notify_def getInstance_def intro!: exI [of _ "c1 @ c2"] split: if_splits)
qed

lemma notify_without_client:
  "\<not> mClientCallback s \<Longrightarrow> notify_all c env g msgs (Some s) = Some s"
  by (induction msgs) (simp_all add: notify_def getInstance_def notify_instance_def)

text \<open>
  C14: after \<open>setNotify\<close> the client receives the messages of the vendor library in their order, one
  callback for each message of a known type and none for the others, each carrying the token
  that \<open>setNotify\<close> returned; an authentication carries the hardware token exactly when a
  finger was recognised. Without a client nothing is delivered and the instance is unchanged.
\<close>

theorem messages_delivered:
  assumes "mDevice s = Some d" and n: "setNotify client s = (dev, t)"
  shows "\<exists>cs u. notify_all c env g msgs (Some t) = Some u \<and> fp_calls u = fp_calls s @ cs \<and>
           (if client then list_all2 (reports_message c dev) (filter known_message msgs) cs else cs = [] \<and> u = t)"
proof -
  have t: "dev = d" "t = s\<lparr>mClientCallback := client\<rparr>" using assms by (auto simp: setNotify_def)
  show ?thesis
  proof (cases client)
    case True
    then show ?thesis using notify_all_reports [of t d c env g msgs] assms t by simp
  next
    case False
    then show ?thesis using notify_without_client [of t c env g msgs] t by simp
  qed
qed

theorem messages_delivered_witness:
  "\<exists>cs u. notify_all fp_consts_example fp_env_example 0
             [MsgOther 3, MsgAuthenticated 0 1 [1], MsgAuthenticated 8 1 [1]]
             (Some \<lparr>mClientCallback = True, mDevice = Some 77, currentHal = 1, fp_calls = []\<rparr>) = Some u
     \<and> fp_calls u = cs
     \<and> list_all2 (reports_message fp_consts_example 77)
         [MsgAuthenticated 0 1 [1], MsgAuthenticated 8 1 [1]] cs"
proof -
  let ?s = "\<lparr>mClientCallback = False, mDevice = Some 77, currentHal = 1, fp_calls = []\<rparr>"
  have "setNotify True ?s = (77, ?s\<lparr>mClientCallback := True\<rparr>)" by (simp add: setNotify_def)
  from messages_delivered [OF _ this, of 77 fp_consts_example fp_env_example 0
      "[MsgOther 3, MsgAuthenticated 0 1 [1], MsgAuthenticated 8 1 [1]]"]
  show ?thesis by (auto simp: known_message_def dest: list_all2_lengthD)
qed

text \<open>
  \<open>setActiveGroup\<close> hands the vendor library a path only when its length is below \<open>PATH_MAX\<close>, it
  is not empty and it may be written, and answers every other path with \<open>SYS_EINVAL\<close> without
  a call; the path handed over is a C string of less than \<open>PATH_MAX\<close> bytes.
\<close>

theorem active_group_guard:
  assumes "mDevice s = Some d"
  shows "\<exists>st t. setActiveGroup env gid path s = Some (st, t) \<and>
     (if 0 < length path \<and> length path < PATH_MAX \<and> can_write_path env (c_str path)
      then fp_calls t = fp_calls s @ [SetActiveGroup d gid (c_str path)]
           \<and> length (c_str path) < PATH_MAX \<and> CHR 0x00 \<notin> set (c_str path)
      else st = SYS_EINVAL \<and> t = s)"
proof -
  have "length (c_str path) \<le> length path" by (simp add: c_str_def length_takeWhile_le)
  moreover have "CHR 0x00 \<notin> set (c_str path)" unfolding c_str_def by (metis set_takeWhileD)
  ultimately show ?thesis using assms by (auto simp: setActiveGroup_def vendor_request_def)
qed

theorem active_group_guard_witness:
  "(\<exists>st t. setActiveGroup fp_env_example 3 ''/data/fp''
             \<lparr>mClientCallback = False, mDevice = Some 77, currentHal = 1, fp_calls = []\<rparr> = Some (st, t)
           \<and> fp_calls t = [SetActiveGroup 77 3 ''/data/fp''])"
  using active_group_guard [of "\<lparr>mClientCallback = False, mDevice = Some 77, currentHal = 1, fp_calls = []\<rparr>" 77
      fp_env_example 3 "''/data/fp''"]
  by (simp add: PATH_MAX_def fp_env_example_def c_str_def)

text \<open>The requests dereference a null device: none of them returns.\<close>

lemma requests_need_device:
  "mDevice s = None \<Longrightarrow>
     preEnroll env s = None \<and> enroll env hat gid timeout s = None \<and> postEnroll env s = None
     \<and> getAuthenticatorId env s = None \<and> cancel env s = None \<and> enumerate_prints env s = None
     \<and> remove_print env gid fid s = None \<and> authenticate env oid gid s = None"
  by (simp add: preEnroll_def enroll_def postEnroll_def getAuthenticatorId_def cancel_def enumerate_prints_def
      remove_print_def authenticate_def vendor_request_def vendor_query_def)

text \<open>Closing: the destructor closes the device once and forgets it only when that succeeded.\<close>

lemma destroy_closes:
  "mDevice s = Some d \<Longrightarrow>
     fp_calls (destroy_BiometricsFingerprint env s) = fp_calls s @ [CloseDevice d]
     \<and> (mDevice (destroy_BiometricsFingerprint env s) = None \<longleftrightarrow> vendor_int env (fp_calls s) (CloseDevice d) = 0)"
  by (simp add: destroy_BiometricsFingerprint_def Let_def)

end
