(* ===== verification/Services.thy ===== *)
theory Services
  imports Hal_Session Usb_Session Gadget_Session Fingerprint
begin

text \<open>
  The three service processes: \<open>main\<close> of \<open>src/sensors/service.cpp\<close>, \<open>src/usb/service.cpp\<close> and
  \<open>src/fingerprint/service.cpp\<close>. Each constructs its HAL objects, registers them and joins the
  thread pool. \<open>reg\<close> says for each service whether its registration succeeds; a result carries the
  exit code, the calls to the binder library and the constructed objects, and is \<open>None\<close> when a
  constructor does not return.
\<close>

datatype binder_call = ConfigureRpcThreadpool nat bool | RegisterAsService string | JoinRpcThreadpool

definition sensors_main ::
  "sensor_consts \<Rightarrow> loader_env \<Rightarrow> (nat \<Rightarrow> SensorInfo list) \<Rightarrow> (string \<Rightarrow> bool) \<Rightarrow> halproxy \<Rightarrow>
     int \<times> binder_call list \<times> halproxy" where
  "sensors_main c env sensors_of reg s =
     (let calls = [ConfigureRpcThreadpool 1 True];
          halProxy = HalProxy_from_config c env sensors_of s;
          calls = calls @ [RegisterAsService ''sensors'']
      in if \<not> reg ''sensors'' then (-1, calls, halProxy)
         else (1, calls @ [JoinRpcThreadpool], halProxy))"

definition usb_main ::
  "bool \<Rightarrow> bool \<Rightarrow> bool \<Rightarrow> bool \<Rightarrow> u64 \<Rightarrow> (string \<Rightarrow> bool) \<Rightarrow> (int \<times> binder_call list \<times> usb \<times> gadget) option" where
  "usb_main attr_init setclock cond_init attr_destroy garbage reg =
     (case Usb_constructor attr_init setclock cond_init attr_destroy of
        None \<Rightarrow> None
      | Some service \<Rightarrow>
          let service2 = UsbGadget_constructor garbage;
              calls = [ConfigureRpcThreadpool 2 True, RegisterAsService ''usb'']
          in if \<not> reg ''usb'' then Some (1, calls, service, service2)
             else
               let calls = calls @ [RegisterAsService ''usb.gadget'']
               in if \<not> reg ''usb.gadget'' then Some (1, calls, service, service2)
                  else Some (1, calls @ [JoinRpcThreadpool], service, service2))"

text \<open>\<open>getInstance\<close> never gives a null pointer: it returns the instance it found or constructed.\<close>

definition fingerprint_main ::
  "fp_consts \<Rightarrow> fp_env \<Rightarrow> int \<Rightarrow> (string \<Rightarrow> bool) \<Rightarrow> fingerprint option \<Rightarrow> (int \<times> binder_call list \<times> fingerprint) option" where
  "fingerprint_main c env garbage reg sInstance =
     (case getInstance c env garbage sInstance of
        None \<Rightarrow> None
      | Some bio \<Rightarrow>
          let calls = [ConfigureRpcThreadpool 1 True, RegisterAsService ''fingerprint'']
          in if \<not> reg ''fingerprint'' then Some (1, calls, bio)
             else Some (0, calls @ [JoinRpcThreadpool], bio))"

section \<open>Properties\<close>

text \<open>
  The USB service process serves requests only when both of its interfaces are registered, the
  port interface before the gadget interface, and what it then serves are a port HAL and a gadget HAL in
  the initial states of their state machines, so that every property of their reachable states
  applies to the running service.
\<close>

theorem usb_service_starts:
  assumes "usb_main attr_init setclock cond_init attr_destroy garbage reg = Some (code, calls, service, service2)"
  shows "usb_init \<lparr>hal = service, switcher = SwIdle, worker = None, signalled = False, joining = False\<rparr> \<and> gadget_init service2
    \<and> (JoinRpcThreadpool \<in> set calls \<longleftrightarrow> reg ''usb'' \<and> reg ''usb.gadget'')
    \<and> (JoinRpcThreadpool \<in> set calls \<longrightarrow>
         calls = [ConfigureRpcThreadpool 2 True, RegisterAsService ''usb'', RegisterAsService ''usb.gadget'', JoinRpcThreadpool])
    \<and> code = 1"
  using assms
  by (auto simp: usb_main_def usb_init_def gadget_init_def Usb_constructor_def Let_def split: option.splits if_splits)

theorem usb_service_starts_witness:
  "\<exists>code calls service service2. usb_main False False False False 7 (\<lambda>_. True) = Some (code, calls, service, service2)
     \<and> usb_init \<lparr>hal = service, switcher = SwIdle, worker = None, signalled = False, joining = False\<rparr> \<and> gadget_init service2 \<and> JoinRpcThreadpool \<in> set calls"
proof -
  obtain code calls service service2
    where m: "usb_main False False False False 7 (\<lambda>_. True) = Some (code, calls, service, service2)"
    by (simp add: usb_main_def Usb_constructor_def)
  from usb_service_starts [OF m] m show ?thesis by simp
qed


text \<open>The sensors service serves a proxy in the initial state of its state machine.\<close>

lemma sensors_service_starts:
  assumes "sensors_main c env sensors_of reg s = (code, calls, halProxy)" and "blank_proxy s"
  shows "session_init c \<lparr>proxy = halProxy, writer_cv = Running, wakelock_cv = Running, posting = [], stopping = False\<rparr>
    \<and> (JoinRpcThreadpool \<in> set calls \<longleftrightarrow> reg ''sensors'')
    \<and> (JoinRpcThreadpool \<in> set calls \<longleftrightarrow> code = 1)"
  using assms by (auto simp: sensors_main_def session_init_def Let_def split: if_splits)

lemma fingerprint_service_starts:
  assumes "fingerprint_main c env garbage reg None = Some (code, calls, bio)"
  shows "BiometricsFingerprint c env garbage = Some bio \<and> (JoinRpcThreadpool \<in> set calls \<longleftrightarrow> reg ''fingerprint'')
    \<and> (JoinRpcThreadpool \<in> set calls \<longleftrightarrow> code = 0)"
  using assms by (auto simp: fingerprint_main_def getInstance_def Let_def split: option.splits if_splits)

end
