(* ===== verification/Libinit.thy ===== *)
theory Libinit
  imports Cpp_String
begin

text \<open>
  The vendor initialisation library of \<open>src/libinit\<close>: overriding system properties, choosing the
  device variant from the boot properties, and the heap limits of the runtime.

  The property area itself belongs to the C library: it is the type \<open>'a\<close>, with its operations in
  the record \<open>prop_api\<close>, an argument of every definition. \<open>prop_api_ok\<close> states what their
  documentation promises for names that are not empty and values shorter than
  \<open>PROP_VALUE_MAX\<close> (92, with the terminator).
\<close>

section \<open>The property area\<close>

text \<open>
  \<open>prop_find\<close> is \<open>__system_property_find\<close>: \<open>None\<close> is the null pointer, \<open>Some v\<close> an entry with the
  value \<open>v\<close>. The entry is passed to \<open>__system_property_update\<close> by its name.
\<close>

record 'a prop_api =
  prop_find :: "'a \<Rightarrow> string \<Rightarrow> string option"
  prop_update :: "string \<Rightarrow> string \<Rightarrow> 'a \<Rightarrow> 'a"
  prop_add :: "string \<Rightarrow> string \<Rightarrow> 'a \<Rightarrow> 'a"
  GetProperty :: "'a \<Rightarrow> string \<Rightarrow> string \<Rightarrow> string"

definition prop_fits :: "string \<Rightarrow> string \<Rightarrow> bool" where
  "prop_fits p v \<longleftrightarrow> p \<noteq> [] \<and> CHR 0x00 \<notin> set p \<and> length v < 92"

definition prop_api_ok :: "'a prop_api \<Rightarrow> bool" where
  "prop_api_ok api \<longleftrightarrow>
     (\<forall>a p v. prop_fits p v \<longrightarrow> prop_find api a p \<noteq> None \<longrightarrow>
        prop_find api (prop_update api p v a) = (prop_find api a)(p \<mapsto> v))
   \<and> (\<forall>a p v. prop_fits p v \<longrightarrow> prop_find api a p = None \<longrightarrow>
        prop_find api (prop_add api p v a) = (prop_find api a)(p \<mapsto> v))
   \<and> (\<forall>a p d. GetProperty api a p d =
        (case prop_find api a p of None \<Rightarrow> d | Some v \<Rightarrow> if v = [] then d else v))"

section \<open>Utilities\<close>

definition property_override :: "'a prop_api \<Rightarrow> string \<Rightarrow> string \<Rightarrow> bool \<Rightarrow> 'a \<Rightarrow> 'a" where
  "property_override api prop value add a =
     (if prop_find api a (c_str prop) \<noteq> None then prop_update api (c_str prop) value a
      else if add then prop_add api prop value a
      else a)"

definition ro_props_default_source_order :: "string list" where
  "ro_props_default_source_order =
     [''odm.'', ''odm_dlkm.'', ''product.'', ''system.'', ''system_ext.'', ''vendor.'', ''vendor_dlkm.'', '''']"

definition ro_prop_name :: "string \<Rightarrow> bool \<Rightarrow> string \<Rightarrow> string" where
  "ro_prop_name prop product source =
     (if product then ''ro.product.'' @ source @ prop else ''ro.'' @ source @ ''build.'' @ prop)"

definition set_ro_build_prop :: "'a prop_api \<Rightarrow> string \<Rightarrow> string \<Rightarrow> bool \<Rightarrow> 'a \<Rightarrow> 'a" where
  "set_ro_build_prop api prop value product a =
     fold (\<lambda>source. property_override api (ro_prop_name prop product source) value True)
       ro_props_default_source_order a"

text \<open>
  \<open>FIND_AND_REMOVE\<close>: position 0 is in range for every string, so neither \<open>substr\<close> nor \<open>erase\<close>
  throws. When the delimiter is missing, \<open>npos + 1\<close> is 0 and nothing is erased.
\<close>

definition FIND_AND_REMOVE :: "string \<Rightarrow> string \<Rightarrow> string \<times> string" where
  "FIND_AND_REMOVE s delimiter =
     (take (unat (std_find s delimiter)) s,
      drop (unat (std_find s delimiter + of_nat (length delimiter))) s)"

definition fingerprint_to_description :: "string \<Rightarrow> string" where
  "fingerprint_to_description fingerprint =
     (let delimiter = ''/'';
          delimiter2 = '':'';
          copy = fingerprint;
          (brand, copy) = FIND_AND_REMOVE copy delimiter;
          (product, copy) = FIND_AND_REMOVE copy delimiter;
          (device, copy) = FIND_AND_REMOVE copy delimiter2;
          (platform_version, copy) = FIND_AND_REMOVE copy delimiter;
          (build_id, copy) = FIND_AND_REMOVE copy delimiter;
          (build_number, copy) = FIND_AND_REMOVE copy delimiter2;
          (build_variant, copy) = FIND_AND_REMOVE copy delimiter;
          build_version_tags = copy
      in product @ ''-'' @ build_variant @ '' '' @ platform_version @ '' '' @ build_id
         @ '' '' @ build_number @ '' '' @ build_version_tags)"

section \<open>Variants\<close>

record variant_info =
  hwc_value :: string
  sku_value :: string
  brand :: string
  device :: string
  model :: string
  build_fingerprint :: string
  nfc :: bool

definition HWC_PROP :: string where
  "HWC_PROP = ''ro.boot.rsc''"

definition SKU_PROP :: string where
  "SKU_PROP = ''ro.boot.product.hardware.sku''"

definition set_variant_props :: "'a prop_api \<Rightarrow> variant_info \<Rightarrow> 'a \<Rightarrow> 'a" where
  "set_variant_props api variant a =
     (let a = set_ro_build_prop api ''brand'' (brand variant) True a;
          a = set_ro_build_prop api ''device'' (device variant) True a;
          a = set_ro_build_prop api ''model'' (model variant) True a;
          a = set_ro_build_prop api ''fingerprint'' (build_fingerprint variant) False a;
          a = property_override api ''ro.bootimage.build.fingerprint'' (build_fingerprint variant) True a;
          a = property_override api ''ro.build.description''
                (fingerprint_to_description (build_fingerprint variant)) True a
      in if nfc variant then property_override api SKU_PROP ''nfc'' True a else a)"

definition variant_matches :: "string \<Rightarrow> string \<Rightarrow> variant_info \<Rightarrow> bool" where
  "variant_matches hwc sku variant \<longleftrightarrow>
     (hwc_value variant = '''' \<or> hwc_value variant = hwc) \<and> (sku_value variant = '''' \<or> sku_value variant = sku)"

fun search_variant_loop :: "'a prop_api \<Rightarrow> string \<Rightarrow> string \<Rightarrow> variant_info list \<Rightarrow> 'a \<Rightarrow> 'a" where
  "search_variant_loop api hwc sku [] a = a"
| "search_variant_loop api hwc sku (variant # vs) a =
     (if variant_matches hwc sku variant then set_variant_props api variant a
      else search_variant_loop api hwc sku vs a)"

definition search_variant :: "'a prop_api \<Rightarrow> variant_info list \<Rightarrow> 'a \<Rightarrow> 'a" where
  "search_variant api variants a =
     search_variant_loop api (GetProperty api a HWC_PROP '''') (GetProperty api a SKU_PROP '''') variants a"

section \<open>Heap limits\<close>

record dalvik_heap_info =
  heapstartsize :: string
  heapgrowthlimit :: string
  heapsize :: string
  heapminfree :: string
  heapmaxfree :: string
  heaptargetutilization :: string

definition dalvik_heap_info_8192 :: dalvik_heap_info where
  "dalvik_heap_info_8192 = \<lparr>heapstartsize = ''24m'', heapgrowthlimit = ''256m'', heapsize = ''512m'',
     heapminfree = ''8m'', heapmaxfree = ''48m'', heaptargetutilization = ''0.4''\<rparr>"

definition dalvik_heap_info_6144 :: dalvik_heap_info where
  "dalvik_heap_info_6144 = \<lparr>heapstartsize = ''16m'', heapgrowthlimit = ''256m'', heapsize = ''512m'',
     heapminfree = ''8m'', heapmaxfree = ''32m'', heaptargetutilization = ''0.5''\<rparr>"

definition dalvik_heap_info_4096 :: dalvik_heap_info where
  "dalvik_heap_info_4096 = \<lparr>heapstartsize = ''8m'', heapgrowthlimit = ''256m'', heapsize = ''512m'',
     heapminfree = ''8m'', heapmaxfree = ''16m'', heaptargetutilization = ''0.6''\<rparr>"

definition GB :: "u64 \<Rightarrow> u64" where
  "GB b = b * 1024 * 1024 * 1024"

definition heap_table :: "u64 \<Rightarrow> dalvik_heap_info" where
  "heap_table totalram =
     (if totalram > GB 7 then dalvik_heap_info_8192
      else if totalram > GB 5 then dalvik_heap_info_6144
      else dalvik_heap_info_4096)"

definition HEAPSTARTSIZE_PROP :: string where "HEAPSTARTSIZE_PROP = ''dalvik.vm.heapstartsize''"
definition HEAPGROWTHLIMIT_PROP :: string where "HEAPGROWTHLIMIT_PROP = ''dalvik.vm.heapgrowthlimit''"
definition HEAPSIZE_PROP :: string where "HEAPSIZE_PROP = ''dalvik.vm.heapsize''"
definition HEAPMINFREE_PROP :: string where "HEAPMINFREE_PROP = ''dalvik.vm.heapminfree''"
definition HEAPMAXFREE_PROP :: string where "HEAPMAXFREE_PROP = ''dalvik.vm.heapmaxfree''"
definition HEAPTARGETUTILIZATION_PROP :: string where "HEAPTARGETUTILIZATION_PROP = ''dalvik.vm.heaptargetutilization''"

lemmas heap_prop_names =
  HEAPSTARTSIZE_PROP_def HEAPGROWTHLIMIT_PROP_def HEAPSIZE_PROP_def HEAPMINFREE_PROP_def HEAPMAXFREE_PROP_def HEAPTARGETUTILIZATION_PROP_def

definition set_dalvik_heap :: "'a prop_api \<Rightarrow> u64 \<Rightarrow> 'a \<Rightarrow> 'a" where
  "set_dalvik_heap api totalram a =
     (let dhi = heap_table totalram;
          a = (if totalram < GB 5 then property_override api ''ro.config.avoid_gfx_accel'' ''true'' True a else a);
          a = property_override api HEAPSTARTSIZE_PROP (heapstartsize dhi) True a;
          a = property_override api HEAPGROWTHLIMIT_PROP (heapgrowthlimit dhi) True a;
          a = property_override api HEAPSIZE_PROP (heapsize dhi) True a;
          a = property_override api HEAPTARGETUTILIZATION_PROP (heaptargetutilization dhi) True a;
          a = property_override api HEAPMINFREE_PROP (heapminfree dhi) True a;
          a = property_override api HEAPMAXFREE_PROP (heapmaxfree dhi) True a
      in a)"

section \<open>The device\<close>

definition camelliain_info :: variant_info where
  "camelliain_info = \<lparr>hwc_value = ''camelliain'', sku_value = ''camellia'', brand = ''Redmi'',
     device = ''camellia'', model = ''Redmi Note 10T 5G'',
     build_fingerprint = ''Redmi/camellia_in/camelliain:12/SP1A.210812.016/V14.0.6.0.TKSMIXM:user/release-keys'',
     nfc = False\<rparr>"

definition camelliacn_info :: variant_info where
  "camelliacn_info = \<lparr>hwc_value = ''camelliacn'', sku_value = ''camelliar'', brand = ''Redmi'',
     device = ''camellia'', model = ''Redmi Note 11SE'',
     build_fingerprint = ''Redmi/camellia/camellia:12/SP1A.210812.016/V14.0.6.0.TKSMIXM:user/release-keys'',
     nfc = False\<rparr>"

definition camellia_info :: variant_info where
  "camellia_info = \<lparr>hwc_value = ''camelliacn'', sku_value = ''camellia'', brand = ''Redmi'',
     device = ''camellia'', model = ''Redmi Note 10 5G'',
     build_fingerprint = ''Redmi/camellia/camellia:12/SP1A.210812.016/V14.0.6.0.TKSMIXM:user/release-keys'',
     nfc = False\<rparr>"

definition camelliagl_info :: variant_info where
  "camelliagl_info = \<lparr>hwc_value = ''camelliagl'', sku_value = ''camellian'', brand = ''Redmi'',
     device = ''camellian'', model = ''Redmi Note 10 5G'',
     build_fingerprint = ''Redmi/camellian_global/camellian:12/SP1A.210812.016/V14.0.6.0.TKSMIXM:user/release-keys'',
     nfc = True\<rparr>"

definition camellianp_info :: variant_info where
  "camellianp_info = \<lparr>hwc_value = ''camelliagl'', sku_value = ''camellianp'', brand = ''POCO'',
     device = ''camellian'', model = ''POCO M3 Pro 5G'',
     build_fingerprint = ''POCO/camellian_p_global/camellian:12/SP1A.210812.016/V14.0.6.0.TKSMIXM:user/release-keys'',
     nfc = True\<rparr>"

definition variants :: "variant_info list" where
  "variants = [camelliain_info, camelliacn_info, camellia_info, camelliagl_info, camellianp_info]"

definition vendor_load_properties :: "'a prop_api \<Rightarrow> u64 \<Rightarrow> 'a \<Rightarrow> 'a" where
  "vendor_load_properties api totalram a = set_dalvik_heap api totalram (search_variant api variants a)"

lemmas variant_table =
  camelliain_info_def camelliacn_info_def camellia_info_def camelliagl_info_def camellianp_info_def

section \<open>The interface of a property setter\<close>

text \<open>
  What the callers of \<open>property_override\<close> rely on: the new value is found, every other name
  keeps its value. Later writes of a sequence win.
\<close>

locale property_setter =
  fixes good :: "'a \<Rightarrow> bool" and get :: "'a \<Rightarrow> string \<Rightarrow> string option"
    and put :: "string \<Rightarrow> string \<Rightarrow> 'a \<Rightarrow> 'a" and fits :: "string \<Rightarrow> string \<Rightarrow> bool"
  assumes good_put: "good a \<Longrightarrow> good (put p v a)"
    and get_put: "good a \<Longrightarrow> fits p v \<Longrightarrow> get (put p v a) = (get a)(p \<mapsto> v)"
begin

definition put_all :: "(string \<times> string) list \<Rightarrow> 'a \<Rightarrow> 'a" where
  "put_all ps a = fold (\<lambda>(p, v). put p v) ps a"

lemma put_all_Nil [simp]: "put_all [] a = a"
  by (simp add: put_all_def)

lemma put_all_Cons [simp]: "put_all ((p, v) # ps) a = put_all ps (put p v a)"
  by (simp add: put_all_def)

lemma good_put_all: "good a \<Longrightarrow> good (put_all ps a)"
  unfolding put_all_def by (induction ps arbitrary: a) (auto intro: good_put)

lemma get_put_all:
  "good a \<Longrightarrow> \<forall>(p, v) \<in> set ps. fits p v \<Longrightarrow> get (put_all ps a) = (get a) ++ map_of (rev ps)"
proof (induction ps arbitrary: a)
  case Nil
  then show ?case by (simp add: put_all_def)
next
  case (Cons x ps)
  obtain p v where x: "x = (p, v)" by fastforce
  have "get (put_all (x # ps) a) = get (put_all ps (put p v a))" by (simp add: put_all_def x)
  also have "\<dots> = (get (put p v a)) ++ map_of (rev ps)" using Cons by (auto simp: x intro: good_put)
  also have "\<dots> = (get a) ++ map_of (rev (x # ps))"
    using Cons.prems by (auto simp: x get_put map_add_def fun_eq_iff split: option.splits)
  finally show ?case .
qed

lemma put_all_append: "put_all (ps @ qs) a = put_all qs (put_all ps a)"
  by (simp add: put_all_def)

end

lemma override_law:
  assumes "prop_api_ok api" and "prop_fits p v"
  shows "prop_find api (property_override api p v True a) = (prop_find api a)(p \<mapsto> v)"
proof -
  have "c_str p = p" using assms(2) by (simp add: prop_fits_def c_str_id)
  with assms show ?thesis by (auto simp: property_override_def prop_api_ok_def)
qed

interpretation ps: property_setter "\<lambda>_. prop_api_ok api" "prop_find api"
  "\<lambda>p v. property_override api p v True" prop_fits for api
  by unfold_locales (simp_all add: override_law)

section \<open>Lemmas: every routine is a sequence of overrides\<close>

definition ro_build_puts :: "string \<Rightarrow> string \<Rightarrow> bool \<Rightarrow> (string \<times> string) list" where
  "ro_build_puts prop v product = map (\<lambda>src. (ro_prop_name prop product src, v)) ro_props_default_source_order"

definition variant_puts :: "variant_info \<Rightarrow> (string \<times> string) list" where
  "variant_puts x = ro_build_puts ''brand'' (brand x) True @ ro_build_puts ''device'' (device x) True
     @ ro_build_puts ''model'' (model x) True @ ro_build_puts ''fingerprint'' (build_fingerprint x) False
     @ [(''ro.bootimage.build.fingerprint'', build_fingerprint x),
        (''ro.build.description'', fingerprint_to_description (build_fingerprint x))]
     @ (if nfc x then [(SKU_PROP, ''nfc'')] else [])"

definition heap_puts :: "u64 \<Rightarrow> (string \<times> string) list" where
  "heap_puts totalram =
     (if totalram < GB 5 then [(''ro.config.avoid_gfx_accel'', ''true'')] else [])
     @ [(''dalvik.vm.heapstartsize'', heapstartsize (heap_table totalram)),
        (''dalvik.vm.heapgrowthlimit'', heapgrowthlimit (heap_table totalram)),
        (''dalvik.vm.heapsize'', heapsize (heap_table totalram)),
        (''dalvik.vm.heaptargetutilization'', heaptargetutilization (heap_table totalram)),
        (''dalvik.vm.heapminfree'', heapminfree (heap_table totalram)),
        (''dalvik.vm.heapmaxfree'', heapmaxfree (heap_table totalram))]"

lemma set_ro_build_prop_puts: "set_ro_build_prop api prop v product a = ps.put_all api (ro_build_puts prop v product) a"
  by (simp add: set_ro_build_prop_def ps.put_all_def ro_build_puts_def fold_map comp_def)

lemma set_variant_props_puts: "set_variant_props api x a = ps.put_all api (variant_puts x) a"
  by (simp add: set_variant_props_def variant_puts_def set_ro_build_prop_puts ps.put_all_append Let_def)

lemma set_dalvik_heap_puts: "set_dalvik_heap api totalram a = ps.put_all api (heap_puts totalram) a"
  by (simp add: set_dalvik_heap_def heap_puts_def heap_prop_names ps.put_all_def Let_def)

lemma search_variant_puts:
  "search_variant_loop api hwc sku vs a =
    (case find (variant_matches hwc sku) vs of None \<Rightarrow> a | Some x \<Rightarrow> ps.put_all api (variant_puts x) a)"
  by (induction vs) (auto simp: set_variant_props_puts)

lemma prop_fits_literal: "length v < 92 \<Longrightarrow> p \<noteq> [] \<Longrightarrow> CHR 0x00 \<notin> set p \<Longrightarrow> prop_fits p v"
  by (simp add: prop_fits_def)

lemma variant_lengths:
  "\<forall>x \<in> set variants. length (brand x) < 92 \<and> length (device x) < 92 \<and> length (model x) < 92
     \<and> length (build_fingerprint x) < 92 \<and> length (fingerprint_to_description (build_fingerprint x)) < 92"
  by code_simp

lemma map_of_rev_distinct: "distinct (map fst ps) \<Longrightarrow> map_of (rev ps) = map_of ps"
  by (simp add: map_of_inject_set rev_map [symmetric])

lemma variant_puts_fit:
  assumes "x \<in> set variants"
  shows "\<forall>(p, v) \<in> set (variant_puts x). prop_fits p v"
proof -
  have "length (brand x) < 92" "length (device x) < 92" "length (model x) < 92"
    "length (build_fingerprint x) < 92" "length (fingerprint_to_description (build_fingerprint x)) < 92"
    using assms variant_lengths by blast+
  then show ?thesis
    by (auto simp: variant_puts_def ro_build_puts_def ro_props_default_source_order_def ro_prop_name_def
        prop_fits_def SKU_PROP_def split: if_splits)
qed

lemma heap_puts_fit: "\<forall>(p, v) \<in> set (heap_puts totalram). prop_fits p v"
  by (auto simp: heap_puts_def heap_table_def dalvik_heap_info_8192_def dalvik_heap_info_6144_def
      dalvik_heap_info_4096_def prop_fits_def)

text \<open>No name is written twice, so the order of the overrides does not matter.\<close>

definition libinit_names :: "bool \<Rightarrow> bool \<Rightarrow> string list" where
  "libinit_names with_nfc low = concat (map (\<lambda>p. map (ro_prop_name p True) ro_props_default_source_order)
       [''brand'', ''device'', ''model''])
     @ map (ro_prop_name ''fingerprint'' False) ro_props_default_source_order
     @ [''ro.bootimage.build.fingerprint'', ''ro.build.description'']
     @ (if with_nfc then [SKU_PROP] else []) @ (if low then [''ro.config.avoid_gfx_accel''] else [])
     @ [''dalvik.vm.heapstartsize'', ''dalvik.vm.heapgrowthlimit'', ''dalvik.vm.heapsize'',
        ''dalvik.vm.heaptargetutilization'', ''dalvik.vm.heapminfree'', ''dalvik.vm.heapmaxfree'']"

lemma distinct_libinit_names: "\<forall>b1 b2. distinct (libinit_names b1 b2)"
  by code_simp

lemma hwc_not_written: "\<forall>b1 b2. HWC_PROP \<notin> set (libinit_names b1 b2)"
  by code_simp

lemma puts_names: "map fst (variant_puts x @ heap_puts totalram) = libinit_names (nfc x) (totalram < GB 5)"
  by (simp add: variant_puts_def heap_puts_def libinit_names_def ro_build_puts_def comp_def)

lemma distinct_puts: "distinct (map fst (variant_puts x @ heap_puts totalram))"
  by (simp only: puts_names distinct_libinit_names)

lemma find_variant: "\<forall>x \<in> set variants. find (variant_matches (hwc_value x) (sku_value x)) variants = Some x"
  by code_simp

lemma find_variant_nfc: "find (variant_matches hwc ''nfc'') variants = None"
  by (simp add: variants_def variant_table variant_matches_def)

lemma get_property_ok:
  "prop_api_ok api \<Longrightarrow> prop_find api a p = Some v \<Longrightarrow> GetProperty api a p '''' = v"
  by (simp add: prop_api_ok_def)

text \<open>What the properties are after the whole initialisation of a known variant.\<close>

lemma load_known_variant:
  assumes api: "prop_api_ok api" and x: "x \<in> set variants"
    and "prop_find api a HWC_PROP = Some (hwc_value x)" "prop_find api a SKU_PROP = Some (sku_value x)"
  shows "prop_find api (vendor_load_properties api totalram a) =
    prop_find api a ++ map_of (variant_puts x @ heap_puts totalram)"
proof -
  let ?ps = "variant_puts x @ heap_puts totalram"
  have "search_variant api variants a = ps.put_all api (variant_puts x) a"
    using find_variant x by (simp add: search_variant_def search_variant_puts get_property_ok [OF api] assms)
  then have "vendor_load_properties api totalram a = ps.put_all api ?ps a"
    by (simp add: vendor_load_properties_def set_dalvik_heap_puts ps.put_all_append)
  moreover have "\<forall>(p, v) \<in> set ?ps. prop_fits p v"
    using variant_puts_fit [OF x] heap_puts_fit [of totalram] by auto
  moreover have "map_of (rev ?ps) = map_of ?ps"
    using distinct_puts by (metis distinct_map map_of_rev_distinct)
  ultimately show ?thesis using ps.get_put_all [OF api] by metis
qed

lemma load_known_get:
  assumes "prop_api_ok api" "x \<in> set variants"
    "prop_find api a HWC_PROP = Some (hwc_value x)" "prop_find api a SKU_PROP = Some (sku_value x)"
    and "(q, v) \<in> set (variant_puts x)"
  shows "prop_find api (vendor_load_properties api totalram a) q = Some v"
proof -
  have "(q, v) \<in> set (variant_puts x @ heap_puts totalram)" using assms(5) by simp
  then have "map_of (variant_puts x @ heap_puts totalram) q = Some v"
    by (rule map_of_is_SomeI [OF distinct_puts])
  then show ?thesis by (simp only: load_known_variant [OF assms(1-4)] map_add_find_right)
qed

lemma heap_get:
  assumes "prop_api_ok api"
  shows "prop_find api (set_dalvik_heap api totalram a) = prop_find api a ++ map_of (rev (heap_puts totalram))"
  unfolding set_dalvik_heap_puts by (rule ps.get_put_all [OF assms heap_puts_fit])

section \<open>Lemmas on fingerprints\<close>

lemma find_and_remove_first:
  assumes "c \<notin> set xs" and "length xs < 2 ^ 64 - 1"
  shows "FIND_AND_REMOVE (xs @ c # ys) [c] = (xs, ys)"
proof -
  have "unat (of_nat (length xs) + of_nat (length [c]) :: size_t) = Suc (length xs)"
    using assms(2) by (subst of_nat_add [symmetric]) (simp del: of_nat_add of_nat_Suc)
  with assms show ?thesis by (simp add: FIND_AND_REMOVE_def std_find_first)
qed

lemma find_and_remove_absent:
  "c \<notin> set s \<Longrightarrow> length s < 2 ^ 64 \<Longrightarrow> FIND_AND_REMOVE s [c] = (s, s)"
  by (simp add: FIND_AND_REMOVE_def std_find_absent) (simp add: npos_def)

section \<open>Properties\<close>

text \<open>
  On a fingerprint of the documented form
  \<open>brand/product/device:version/id/number:variant/tags\<close> the description is
  \<open>product-variant version id number tags\<close>.
\<close>

theorem fingerprint_description:
  assumes "CHR ''/'' \<notin> set b" "CHR ''/'' \<notin> set p" "CHR '':'' \<notin> set d" "CHR ''/'' \<notin> set v"
    "CHR ''/'' \<notin> set i" "CHR '':'' \<notin> set n" "CHR ''/'' \<notin> set t"
    and len: "length (b @ p @ d @ v @ i @ n @ t @ g) < 2 ^ 64 - 8"
  shows "fingerprint_to_description
      (b @ ''/'' @ p @ ''/'' @ d @ '':'' @ v @ ''/'' @ i @ ''/'' @ n @ '':'' @ t @ ''/'' @ g)
    = p @ ''-'' @ t @ '' '' @ v @ '' '' @ i @ '' '' @ n @ '' '' @ g"
proof -
  have "length b < 2 ^ 64 - 1" "length p < 2 ^ 64 - 1" "length d < 2 ^ 64 - 1" "length v < 2 ^ 64 - 1"
    "length i < 2 ^ 64 - 1" "length n < 2 ^ 64 - 1" "length t < 2 ^ 64 - 1" using len by simp_all
  note cut = find_and_remove_first [OF _ this(1)] find_and_remove_first [OF _ this(2)]
    find_and_remove_first [OF _ this(3)] find_and_remove_first [OF _ this(4)]
    find_and_remove_first [OF _ this(5)] find_and_remove_first [OF _ this(6)]
    find_and_remove_first [OF _ this(7)]
  show ?thesis using assms(1-7) by (simp add: fingerprint_to_description_def cut)
qed

text \<open>
  A missing delimiter is not an error. \<open>find\<close> returns \<open>npos\<close> and \<open>npos + 1\<close> wraps to 0, so
  nothing is cut off: every part of a string without \<open>/\<close> and \<open>:\<close> is the whole string, which the
  description then repeats six times.
\<close>

theorem fingerprint_without_delimiters:
  assumes "CHR ''/'' \<notin> set s" "CHR '':'' \<notin> set s" "length s < 2 ^ 64"
  shows "fingerprint_to_description s = s @ ''-'' @ s @ '' '' @ s @ '' '' @ s @ '' '' @ s @ '' '' @ s"
  using assms by (simp add: fingerprint_to_description_def find_and_remove_absent)


text \<open>
  Loading the properties is not idempotent on the variants with NFC: they overwrite the SKU
  property from which the variant was recognised, so a second search finds no variant and leaves
  the properties alone.
\<close>

theorem nfc_variant_not_found_again:
  assumes api: "prop_api_ok api" and x: "x \<in> set variants" "nfc x"
    and hwc: "prop_find api a HWC_PROP = Some (hwc_value x)"
    and sku: "prop_find api a SKU_PROP = Some (sku_value x)"
  shows "search_variant api variants (vendor_load_properties api totalram a) = vendor_load_properties api totalram a"
proof -
  let ?a = "vendor_load_properties api totalram a"
  have "(SKU_PROP, ''nfc'') \<in> set (variant_puts x)" using x(2) by (simp add: variant_puts_def)
  from load_known_get [OF api x(1) hwc sku this] have "prop_find api ?a SKU_PROP = Some ''nfc''" .
  then show ?thesis
    by (simp add: search_variant_def search_variant_puts get_property_ok [OF api] find_variant_nfc)
qed

text \<open>
  The heap limits follow the amount of memory in three steps (above 7 GiB, above 5 GiB, the
  rest), with a growth limit of 256 MiB and a heap of 512 MiB on all of them; graphics
  acceleration is avoided strictly below 5 GiB and left as it was otherwise.
\<close>

theorem heap_limits:
  assumes api: "prop_api_ok api" and a': "a' = set_dalvik_heap api totalram a"
  shows "prop_find api a' ''dalvik.vm.heapstartsize'' =
      Some (if unat totalram > 7 * 2 ^ 30 then ''24m'' else if unat totalram > 5 * 2 ^ 30 then ''16m'' else ''8m'')
    \<and> prop_find api a' ''dalvik.vm.heapmaxfree'' =
      Some (if unat totalram > 7 * 2 ^ 30 then ''48m'' else if unat totalram > 5 * 2 ^ 30 then ''32m'' else ''16m'')
    \<and> prop_find api a' ''dalvik.vm.heaptargetutilization'' =
      Some (if unat totalram > 7 * 2 ^ 30 then ''0.4'' else if unat totalram > 5 * 2 ^ 30 then ''0.5'' else ''0.6'')
    \<and> prop_find api a' ''dalvik.vm.heapgrowthlimit'' = Some ''256m''
    \<and> prop_find api a' ''dalvik.vm.heapsize'' = Some ''512m''
    \<and> prop_find api a' ''dalvik.vm.heapminfree'' = Some ''8m''
    \<and> prop_find api a' ''ro.config.avoid_gfx_accel'' =
      (if unat totalram < 5 * 2 ^ 30 then Some ''true'' else prop_find api a ''ro.config.avoid_gfx_accel'')"
proof -
  have "totalram > GB 7 \<longleftrightarrow> unat totalram > 7 * 2 ^ 30" "totalram > GB 5 \<longleftrightarrow> unat totalram > 5 * 2 ^ 30"
    "totalram < GB 5 \<longleftrightarrow> unat totalram < 5 * 2 ^ 30" by (simp_all add: GB_def word_less_nat_alt)
  note limits = this
  show ?thesis unfolding a' heap_get [OF api] heap_puts_def heap_table_def limits
    by (simp add: dalvik_heap_info_8192_def dalvik_heap_info_6144_def dalvik_heap_info_4096_def)
qed

section \<open>Witnesses\<close>

text \<open>A property area that is a finite map, with the documented behaviour.\<close>

definition map_api :: "(string \<Rightarrow> string option) prop_api" where
  "map_api = \<lparr>prop_find = (\<lambda>m p. m p), prop_update = (\<lambda>p v m. m(p \<mapsto> v)), prop_add = (\<lambda>p v m. m(p \<mapsto> v)),
     GetProperty = (\<lambda>m p d. case m p of None \<Rightarrow> d | Some v \<Rightarrow> if v = [] then d else v)\<rparr>"

lemma map_api_ok: "prop_api_ok map_api"
  by (simp add: prop_api_ok_def map_api_def)

definition poco_boot :: "string \<Rightarrow> string option" where
  "poco_boot = [HWC_PROP \<mapsto> ''camelliagl'', SKU_PROP \<mapsto> ''camellianp'']"

lemma poco_known: "camellianp_info \<in> set variants" "nfc camellianp_info"
  "prop_find map_api poco_boot HWC_PROP = Some (hwc_value camellianp_info)"
  "prop_find map_api poco_boot SKU_PROP = Some (sku_value camellianp_info)"
  by (simp_all add: variants_def camellianp_info_def map_api_def poco_boot_def HWC_PROP_def SKU_PROP_def)

theorem fingerprint_description_witness:
  "fingerprint_to_description ''Redmi/camellia/camellia:12/SP1A/V14:user/release-keys''
     = ''camellia-user 12 SP1A V14 release-keys''"
  using fingerprint_description [of "''Redmi''" "''camellia''" "''camellia''" "''12''" "''SP1A''" "''V14''"
      "''user''" "''release-keys''"] by simp

theorem fingerprint_without_delimiters_witness:
  "fingerprint_to_description ''ab'' = ''ab-ab ab ab ab ab''"
  using fingerprint_without_delimiters [of "''ab''"] by simp


theorem nfc_variant_not_found_again_witness:
  "search_variant map_api variants (vendor_load_properties map_api 0x100000000 poco_boot)
     = vendor_load_properties map_api 0x100000000 poco_boot"
  by (rule nfc_variant_not_found_again [OF map_api_ok poco_known])

theorem heap_limits_witness:
  "prop_find map_api (set_dalvik_heap map_api 0x180000000 Map.empty) ''dalvik.vm.heapmaxfree'' = Some ''32m''"
  using heap_limits [OF map_api_ok refl, of "0x180000000" Map.empty] by simp

end
