(* ===== verification/Power_Mode.thy ===== *)
theory Power_Mode
  imports Cpp_String "HOL-Library.Multiset"
begin

text \<open>
  The double-tap-to-wake extension of the power HAL, \<open>src/power/power-mode.cpp\<close>: the search for the
  touch screen among the input devices and the event written to it.

  The kernel is the record \<open>power_env\<close>: its answers may depend on all calls made before. Every
  system call is logged with its result, so that the theorems speak of what was opened,
  closed and written. A write behind the end of the path buffer is the result \<open>None\<close>.
\<close>

section \<open>Data\<close>

text \<open>The modes of the AIDL interface; all modes but one are treated alike.\<close>

datatype Mode = DOUBLE_TAP_TO_WAKE | UnhandledMode nat

datatype power_call =
    OpenDir
  | OpenFile string int
  | GetName int int string
  | CloseFile int
  | CloseDir
  | WriteEvent int nat nat int

record dirent =
  is_chr :: bool
  d_name :: string

record power_env =
  EV_SYN :: nat
  SYN_CONFIG :: nat
  input_dir :: "dirent list option"
  open_result :: "power_call list \<Rightarrow> string \<Rightarrow> int"
  name_result :: "power_call list \<Rightarrow> int \<Rightarrow> int \<times> string"

text \<open>
  The kernel's promises: \<open>EVIOCGNAME\<close> on the descriptor -1 fails, and the name of a directory entry
  is a C string of at most 255 bytes.
\<close>

definition power_env_ok :: "power_env \<Rightarrow> bool" where
  "power_env_ok env \<longleftrightarrow>
     (\<forall>h. fst (name_result env h (- 1)) \<le> 0)
     \<and> (\<forall>es. input_dir env = Some es \<longrightarrow> (\<forall>e \<in> set es. length (d_name e) \<le> 255 \<and> CHR 0x00 \<notin> set (d_name e)))"

section \<open>Operations\<close>

definition power_PATH_MAX :: nat where
  "power_PATH_MAX = 4096"

text \<open>\<open>strcpy\<close> and \<open>strcat\<close> into \<open>absolute_path\<close>; the terminating zero needs a byte of its own.\<close>

definition build_path :: "string \<Rightarrow> string option" where
  "build_path name =
     (let p = ''/dev/input/'' @ c_str name in if length p < power_PATH_MAX then Some p else None)"

text \<open>The buffer \<open>name\<close> has 80 zero bytes, of which the call fills at most 79.\<close>

definition touch_name :: "string \<Rightarrow> bool" where
  "touch_name bytes =
     (let name = c_str (take 79 bytes) in name = ''fts_ts'' \<or> name = ''NVTCapacitiveTouchScreen'')"

fun read_inputs :: "power_env \<Rightarrow> dirent list \<Rightarrow> power_call list \<Rightarrow> (int \<times> power_call list) option" where
  "read_inputs env [] h = Some (- 1, h)"
| "read_inputs env (ent # ents) h =
     (if is_chr ent then
        case build_path (d_name ent) of
          None \<Rightarrow> None
        | Some absolute_path \<Rightarrow>
            let fd = open_result env h absolute_path;
                h = h @ [OpenFile absolute_path fd];
                (n, bytes) = name_result env h fd;
                h = h @ [GetName fd n bytes]
            in if n > 0 \<and> touch_name bytes then Some (fd, h)
               else read_inputs env ents (h @ [CloseFile fd])
      else read_inputs env ents h)"

definition open_ts_input :: "power_env \<Rightarrow> power_call list \<Rightarrow> (int \<times> power_call list) option" where
  "open_ts_input env h =
     (let h = h @ [OpenDir]
      in case input_dir env of
           None \<Rightarrow> Some (- 1, h)
         | Some ents \<Rightarrow> map_option (\<lambda>(fd, h). (fd, h @ [CloseDir])) (read_inputs env ents h))"

definition kInputEventWakeupModeOff :: int where
  "kInputEventWakeupModeOff = 4"

definition kInputEventWakeupModeOn :: int where
  "kInputEventWakeupModeOn = 5"

text \<open>The returned boolean and what is stored in \<open>*_aidl_return\<close>, if anything.\<close>

definition isDeviceSpecificModeSupported :: "Mode \<Rightarrow> bool \<times> bool option" where
  "isDeviceSpecificModeSupported type =
     (case type of DOUBLE_TAP_TO_WAKE \<Rightarrow> (True, Some True) | UnhandledMode _ \<Rightarrow> (False, None))"

definition setDeviceSpecificMode ::
  "power_env \<Rightarrow> Mode \<Rightarrow> bool \<Rightarrow> power_call list \<Rightarrow> (bool \<times> power_call list) option" where
  "setDeviceSpecificMode env type enabled h =
     (case type of
        DOUBLE_TAP_TO_WAKE \<Rightarrow>
          (case open_ts_input env h of
             None \<Rightarrow> None
           | Some (fd, h) \<Rightarrow>
               if fd = - 1 then Some (False, h)
               else
                 let value = (if enabled then kInputEventWakeupModeOn else kInputEventWakeupModeOff)
                 in Some (True, h @ [WriteEvent fd (EV_SYN env) (SYN_CONFIG env) value, CloseFile fd]))
      | UnhandledMode _ \<Rightarrow> Some (False, h))"

section \<open>Descriptors\<close>

text \<open>
  The descriptors that are open after a log: a successful \<open>open\<close> adds one, \<open>close\<close> removes one
  (and fails without effect on -1).
\<close>

fun open_fds :: "power_call list \<Rightarrow> int multiset \<Rightarrow> int multiset" where
  "open_fds [] F = F"
| "open_fds (OpenFile p fd # h) F = open_fds h (if fd = - 1 then F else add_mset fd F)"
| "open_fds (CloseFile fd # h) F = open_fds h (F - {#fd#})"
| "open_fds (_ # h) F = open_fds h F"

lemma open_fds_append: "open_fds (h @ k) F = open_fds k (open_fds h F)"
  by (induction h F rule: open_fds.induct) auto

definition touch_in :: "power_call list \<Rightarrow> bool" where
  "touch_in h = list_ex (\<lambda>x. case x of GetName fd n bytes \<Rightarrow> n > 0 \<and> touch_name bytes | _ \<Rightarrow> False) h"

lemma touch_in_simps [simp]:
  "touch_in [] = False"
  "touch_in (h @ k) = (touch_in h \<or> touch_in k)"
  "touch_in (x # h) = ((case x of GetName fd n bytes \<Rightarrow> n > 0 \<and> touch_name bytes | _ \<Rightarrow> False) \<or> touch_in h)"
  by (simp_all add: touch_in_def)

lemma build_path_entry:
  "length name \<le> 255 \<Longrightarrow> CHR 0x00 \<notin> set name \<Longrightarrow> build_path name = Some (''/dev/input/'' @ name)"
  by (simp add: build_path_def power_PATH_MAX_def c_str_id)

text \<open>The scan: what it adds to the log, and which descriptor it leaves open.\<close>

definition scan_ok :: "power_call list \<Rightarrow> int \<Rightarrow> power_call list \<Rightarrow> bool" where
  "scan_ok h fd t \<longleftrightarrow>
     (\<exists>k. t = h @ k
        \<and> (\<forall>x \<in> set k. case x of WriteEvent _ _ _ _ \<Rightarrow> False | OpenDir \<Rightarrow> False | CloseDir \<Rightarrow> False | _ \<Rightarrow> True)
        \<and> (if fd = - 1 then \<not> touch_in k \<and> (\<forall>F. (- 1) \<notin># F \<longrightarrow> open_fds k F = F)
           else (\<exists>pre p n bytes. k = pre @ [OpenFile p fd, GetName fd n bytes] \<and> n > 0 \<and> touch_name bytes
                  \<and> \<not> touch_in pre \<and> (\<forall>F. (- 1) \<notin># F \<longrightarrow> open_fds pre F = F))))"

lemma scan_ok_round:
  assumes "\<not> (n > 0 \<and> touch_name bytes)"
    and "scan_ok (h @ [OpenFile p f, GetName f n bytes, CloseFile f]) fd t"
  shows "scan_ok h fd t"
proof -
  let ?r = "[OpenFile p f, GetName f n bytes, CloseFile f]"
  obtain k where k: "t = h @ ?r @ k"
      "\<forall>x \<in> set k. case x of WriteEvent _ _ _ _ \<Rightarrow> False | OpenDir \<Rightarrow> False | CloseDir \<Rightarrow> False | _ \<Rightarrow> True"
      "if fd = - 1 then \<not> touch_in k \<and> (\<forall>F. (- 1) \<notin># F \<longrightarrow> open_fds k F = F)
       else (\<exists>pre p n bytes. k = pre @ [OpenFile p fd, GetName fd n bytes] \<and> n > 0 \<and> touch_name bytes
              \<and> \<not> touch_in pre \<and> (\<forall>F. (- 1) \<notin># F \<longrightarrow> open_fds pre F = F))"
    using assms(2) unfolding scan_ok_def by auto
  have r: "\<not> touch_in ?r" "(- 1) \<notin># F \<Longrightarrow> open_fds ?r F = F" for F
    using assms(1) by (auto simp: diff_single_trivial)
  show ?thesis
  proof (cases "fd = - 1")
    case True
    then show ?thesis using k r
      unfolding scan_ok_def by (intro exI [of _ "?r @ k"]) (auto simp: open_fds_append)
  next
    case False
    then obtain pre p' n' b' where p: "k = pre @ [OpenFile p' fd, GetName fd n' b']" "n' > 0" "touch_name b'"
        "\<not> touch_in pre" "\<forall>F. (- 1) \<notin># F \<longrightarrow> open_fds pre F = F"
      using k by auto
    have "\<not> touch_in (?r @ pre)" "\<forall>F. (- 1) \<notin># F \<longrightarrow> open_fds (?r @ pre) F = F"
      using p r by (auto simp: open_fds_append simp del: append_Cons append_Nil open_fds.simps touch_in_simps(3))
    with p have "\<exists>pre p n bytes. ?r @ k = pre @ [OpenFile p fd, GetName fd n bytes] \<and> n > 0 \<and> touch_name bytes
        \<and> \<not> touch_in pre \<and> (\<forall>F. (- 1) \<notin># F \<longrightarrow> open_fds pre F = F)"
      by (intro exI [of _ "?r @ pre"]) auto
    then show ?thesis using k False
      unfolding scan_ok_def by (intro exI [of _ "?r @ k"]) auto
  qed
qed

lemma read_inputs_ok:
  assumes "\<And>h. fst (name_result env h (- 1)) \<le> 0"
  shows "read_inputs env ents h = Some (fd, t) \<Longrightarrow> scan_ok h fd t"
proof (induction ents arbitrary: h)
  case Nil
  then show ?case by (auto simp: scan_ok_def)
next
  case (Cons e ents)
  show ?case
  proof (cases "is_chr e")
    case False
    then show ?thesis using Cons by simp
  next
    case True
    with Cons.prems obtain p where p: "build_path (d_name e) = Some p" by (auto split: option.splits)
    define f where "f = open_result env h p"
    obtain n b where nb: "name_result env (h @ [OpenFile p f]) f = (n, b)" by fastforce
    show ?thesis
    proof (cases "n > 0 \<and> touch_name b")
      case hit: True
      then have "f \<noteq> - 1" using assms [of "h @ [OpenFile p f]"] nb by auto
      moreover have "fd = f" "t = h @ [OpenFile p f, GetName f n b]"
        using Cons.prems True p nb hit by (auto simp: f_def Let_def)
      ultimately show ?thesis using hit by (auto simp: scan_ok_def intro!: exI [of _ "[]"])
    next
      case miss: False
      then have "read_inputs env ents (h @ [OpenFile p f, GetName f n b, CloseFile f]) = Some (fd, t)"
        using Cons.prems True p nb by (auto simp: f_def Let_def)
      then show ?thesis by (rule scan_ok_round [OF miss Cons.IH])
    qed
  qed
qed

lemma read_inputs_total:
  "(\<And>e. e \<in> set ents \<Longrightarrow> length (d_name e) \<le> 255 \<and> CHR 0x00 \<notin> set (d_name e)) \<Longrightarrow>
     \<exists>r. read_inputs env ents h = Some r"
proof (induction ents arbitrary: h)
  case Nil
  then show ?case by simp
next
  case (Cons e ents)
  then show ?case by (simp add: build_path_entry Let_def case_prod_beta')
qed

lemma power_env_okD:
  assumes "power_env_ok env"
  shows "fst (name_result env h (- 1)) \<le> 0"
    and "input_dir env = Some es \<Longrightarrow> e \<in> set es \<Longrightarrow> length (d_name e) \<le> 255 \<and> CHR 0x00 \<notin> set (d_name e)"
  using assms by (auto simp: power_env_ok_def)

lemma open_ts_input_ok:
  assumes "power_env_ok env"
  shows "\<exists>fd t. open_ts_input env h = Some (fd, t @ (if input_dir env = None then [] else [CloseDir]))
           \<and> scan_ok (h @ [OpenDir]) fd t"
proof (cases "input_dir env")
  case None
  then show ?thesis by (auto simp: open_ts_input_def scan_ok_def)
next
  case (Some ents)
  then obtain r where "read_inputs env ents (h @ [OpenDir]) = Some r"
    using read_inputs_total power_env_okD(2) [OF assms Some] by metis
  then show ?thesis using Some read_inputs_ok [of env ents "h @ [OpenDir]"] power_env_okD(1) [OF assms]
    by (cases r) (auto simp: open_ts_input_def)
qed

section \<open>Properties\<close>



text \<open>A directory with a keyboard, a device that cannot be opened and the touch screen.\<close>

definition power_env_example :: power_env where
  "power_env_example =
     \<lparr>EV_SYN = 0, SYN_CONFIG = 3,
      input_dir = Some [\<lparr>is_chr = False, d_name = ''.''\<rparr>, \<lparr>is_chr = True, d_name = ''event0''\<rparr>,
                        \<lparr>is_chr = True, d_name = ''event1''\<rparr>, \<lparr>is_chr = True, d_name = ''event2''\<rparr>],
      open_result = (\<lambda>h p. if p = ''/dev/input/event0'' then 7 else if p = ''/dev/input/event1'' then - 1 else 8),
      name_result = (\<lambda>h fd. if fd = 7 then (6, ''gpio-k'') else if fd = 8 then (6, ''fts_ts'') else (- 1, []))\<rparr>"

lemma power_env_example_ok: "power_env_ok power_env_example"
  by (simp add: power_env_ok_def power_env_example_def)



end
