(* ===== verification/Inotify.thy ===== *)
theory Inotify
  imports Usb_Gadget
begin

text \<open>
  The buffer of inotify events that \<open>monitorFfs\<close> in \<open>src/usb/UsbGadget.cpp\<close> reads: its loop over the records,
  down to the bytes, and the debug output of an event. The bytes are those that \<open>read\<close> returned; the loop is
  shown to handle one event for each record the kernel wrote and never to look at a header that was not
  read.
\<close>

section \<open>Records\<close>

type_synonym byte = "8 word"

record inotify_event =
  ev_wd :: i32
  ev_mask :: u32
  ev_cookie :: u32
  ev_name :: "byte list"

text \<open>Loads of little-endian 32-bit fields; \<open>None\<close> when they lie outside the bytes.\<close>

definition load32 :: "byte list \<Rightarrow> nat \<Rightarrow> u32 option" where
  "load32 buf p =
     (if p + 4 \<le> length buf
      then Some (of_nat (unat (buf ! p) + 256 * (unat (buf ! (p + 1)) + 256 * (unat (buf ! (p + 2)) + 256 * unat (buf ! (p + 3))))))
      else None)"

definition sizeof_inotify_event :: nat where
  "sizeof_inotify_event = 16"

text \<open>
  The loop of \<open>monitorFfs\<close> from the position \<open>p\<close> on; \<open>clock k\<close> is the time when the \<open>k\<close>-th event is handled.
  \<open>None\<close> is a read behind the bytes.
\<close>

function inotify_loop ::
  "gadget_env \<Rightarrow> (nat \<Rightarrow> int) \<Rightarrow> nat \<Rightarrow> byte list \<Rightarrow> nat \<Rightarrow> monitor \<times> gadget \<Rightarrow> (monitor \<times> gadget) option" where
  "inotify_loop env clock k buf p ms =
     (if p < length buf then
        (case load32 buf (p + 12) of
           None \<Rightarrow> None
         | Some len \<Rightarrow>
             inotify_loop env clock (Suc k) buf (p + (sizeof_inotify_event + unat len))
               (monitorFfs_inotify env (clock k) ms))
      else Some ms)"
  by pat_completeness auto
termination
  by (relation "measure (\<lambda>(env, clock, k, buf, p, ms). length buf - p)") (auto simp: sizeof_inotify_event_def)

declare inotify_loop.simps [simp del]

section \<open>Debug output\<close>

datatype log_line = LogText string | LogWd i32 | LogCookie u32 | LogName "byte list"

text \<open>The bits of a mask, by their values in the kernel interface, in the order of the output.\<close>

definition mask_names :: "(u32 \<times> string) list" where
  "mask_names =
     [(0x1, ''IN_ACCESS''), (0x4, ''IN_ATTRIB''), (0x10, ''IN_CLOSE_NOWRITE''), (0x8, ''IN_CLOSE_WRITE''),
      (0x100, ''IN_CREATE''), (0x200, ''IN_DELETE''), (0x400, ''IN_DELETE_SELF''), (0x8000, ''IN_IGNORED''),
      (0x40000000, ''IN_ISDIR''), (0x2, ''IN_MODIFY''), (0x800, ''IN_MOVE_SELF''), (0x40, ''IN_MOVED_FROM''),
      (0x80, ''IN_MOVED_TO''), (0x20, ''IN_OPEN''), (0x4000, ''IN_Q_OVERFLOW''), (0x2000, ''IN_UNMOUNT'')]"

definition displayInotifyEvent :: "inotify_event \<Rightarrow> log_line list" where
  "displayInotifyEvent i =
     [LogWd (ev_wd i)] @ (if ev_cookie i > 0 then [LogCookie (ev_cookie i)] else [])
     @ [LogText ''mask = '']
     @ map (\<lambda>(b, name). LogText name) (filter (\<lambda>(b, name). ev_mask i AND b \<noteq> 0) mask_names)
     @ [LogText ''''] @ (if ev_name i \<noteq> [] then [LogName (ev_name i)] else [])"

section \<open>What the kernel writes\<close>

definition store32 :: "u32 \<Rightarrow> byte list" where
  "store32 w = map (\<lambda>i. of_nat (unat w div 256 ^ i)) [0..<4]"

definition store_event :: "inotify_event \<Rightarrow> byte list" where
  "store_event e = store32 (ev_wd e) @ store32 (ev_mask e) @ store32 (ev_cookie e)
     @ store32 (of_nat (length (ev_name e))) @ ev_name e"

definition event_ok :: "inotify_event \<Rightarrow> bool" where
  "event_ok e \<longleftrightarrow> length (ev_name e) < 2 ^ 32"

lemma length_store32 [simp]: "length (store32 w) = 4"
  by (simp add: store32_def)

lemma length_store_event: "length (store_event e) = 16 + length (ev_name e)"
  by (simp add: store_event_def)

lemma split_base_256:
  fixes n :: nat
  assumes "n < 256 ^ 4"
  shows "n mod 256 + 256 * (n div 256 mod 256 + 256 * (n div 256 ^ 2 mod 256 + 256 * (n div 256 ^ 3 mod 256))) = n"
proof -
  have d: "n div 256 ^ 2 = n div 256 div 256" "n div 256 ^ 3 = n div 256 div 256 div 256"
    by (simp_all only: div_mult2_eq [symmetric]) simp_all
  have "n div 256 div 256 div 256 < 256" using assms by (simp add: div_mult2_eq [symmetric] less_mult_imp_div_less)
  then show ?thesis unfolding d
    by (metis add.commute mod_less mult_div_mod_eq)
qed

lemma load_store32: "load32 (pre @ store32 w @ post) (length pre) = Some w"
proof -
  have b: "unat (store32 w ! i) = unat w div 256 ^ i mod 256" if "i < 4" for i
    using that by (simp add: store32_def unat_of_nat)
  have n: "(pre @ store32 w @ post) ! (length pre + i) = store32 w ! i" if "i < 4" for i
    using that by (simp add: nth_append)
  have "unat w < 256 ^ 4" using unsigned_less [of w] by simp
  from split_base_256 [OF this] n [of 0] n [of 1] n [of 2] n [of 3] b [of 0] b [of 1] b [of 2] b [of 3] show ?thesis
    by (simp add: load32_def)
qed

lemma load_len:
  assumes "event_ok e"
  shows "load32 (pre @ store_event e @ post) (length pre + 12) = Some (of_nat (length (ev_name e)))"
  using load_store32 [of "pre @ store32 (ev_wd e) @ store32 (ev_mask e) @ store32 (ev_cookie e)"
      "of_nat (length (ev_name e))" "ev_name e @ post"]
  by (simp add: store_event_def add.assoc)

lemma inotify_loop_from:
  assumes "list_all event_ok es"
  shows "inotify_loop env clock k (pre @ concat (map store_event es)) (length pre) ms
    = Some (fold (monitorFfs_inotify env) (map clock [k..<k + length es]) ms)"
  using assms
proof (induction es arbitrary: pre k ms)
  case Nil
  then show ?case by (simp add: inotify_loop.simps)
next
  case (Cons e es)
  let ?len = "length (ev_name e)" and ?buf = "pre @ store_event e @ concat (map store_event es)"
  have up: "[k..<k + length (e # es)] = k # [Suc k..<Suc k + length es]"
    by (simp add: upt_conv_Cons del: upt_Suc)
  have ok: "event_ok e" using Cons.prems by simp
  then have u: "unat (of_nat ?len :: u32) = ?len" by (simp add: event_ok_def unat_of_nat)
  have more: "length pre < length ?buf" by (simp add: length_store_event)
  have "inotify_loop env clock k ?buf (length pre) ms =
      inotify_loop env clock (Suc k) ?buf (length pre + (sizeof_inotify_event + ?len)) (monitorFfs_inotify env (clock k) ms)"
    using more by (subst inotify_loop.simps) (simp only: load_len [OF ok] u if_True option.case)
  also have "length pre + (sizeof_inotify_event + ?len) = length (pre @ store_event e)"
    by (simp add: sizeof_inotify_event_def length_store_event)
  also have "inotify_loop env clock (Suc k) ?buf (length (pre @ store_event e)) (monitorFfs_inotify env (clock k) ms)
      = Some (fold (monitorFfs_inotify env) (map clock [Suc k..<Suc k + length es]) (monitorFfs_inotify env (clock k) ms))"
    using Cons.IH [of "Suc k" "pre @ store_event e"] Cons.prems by simp
  finally show ?case unfolding up by simp
qed

section \<open>Properties\<close>

text \<open>
  C12: the buffer is read record by record. When the bytes that were read are records of the kernel, with names of any
  length, \<open>monitorFfs\<close> handles one event for each of them, in order, as the monitor of \<open>Usb_Gadget\<close> does for its
  list of events, and never looks at a header behind the bytes.
\<close>

theorem inotify_buffer_handled:
  assumes "list_all event_ok es"
  shows "inotify_loop env clock 0 (concat (map store_event es)) 0 ms
    = Some (monitorFfs_input env (Inotify (map clock [0..<length es])) ms)"
  using inotify_loop_from [OF assms, of env clock 0 "[]" ms] by simp

text \<open>The debug output of a mask tells every bit that has a name.\<close>

lemma filter_eq_all: "filter P xs = filter Q xs \<Longrightarrow> x \<in> set xs \<Longrightarrow> P x = Q x"
proof -
  assume eq: "filter P xs = filter Q xs" and x: "x \<in> set xs"
  have "x \<in> set (filter P xs) \<longleftrightarrow> x \<in> set (filter Q xs)" by (simp only: eq)
  with x show ?thesis by simp
qed

theorem display_tells_mask:
  assumes "displayInotifyEvent (e\<lparr>ev_mask := m\<rparr>) = displayInotifyEvent (e\<lparr>ev_mask := n\<rparr>)" and "(b, name) \<in> set mask_names"
  shows "m AND b = 0 \<longleftrightarrow> n AND b = 0"
proof -
  have inj: "inj_on (\<lambda>(b, name). LogText name) (set mask_names)"
    by (simp add: mask_names_def inj_on_def)
  have "map (\<lambda>(b, name). LogText name) (filter (\<lambda>(b, name). m AND b \<noteq> 0) mask_names)
      = map (\<lambda>(b, name). LogText name) (filter (\<lambda>(b, name). n AND b \<noteq> 0) mask_names)"
    using assms(1) by (simp add: displayInotifyEvent_def)
  then have "filter (\<lambda>(b, name). m AND b \<noteq> 0) mask_names = filter (\<lambda>(b, name). n AND b \<noteq> 0) mask_names"
    by (rule map_inj_on) (auto intro: inj_on_subset [OF inj])
  from filter_eq_all [OF this assms(2)] show ?thesis by auto
qed

section \<open>The properties at concrete inputs\<close>

definition example_events :: "inotify_event list" where
  "example_events = [\<lparr>ev_wd = 1, ev_mask = 0x100, ev_cookie = 0, ev_name = [0x65, 0x70, 0x31, 0]\<rparr>,
     \<lparr>ev_wd = 2, ev_mask = 0x200, ev_cookie = 0, ev_name = []\<rparr>]"

theorem inotify_buffer_handled_witness:
  "inotify_loop happy_env (\<lambda>k. 7) 0 (concat (map store_event example_events)) 0
       (\<lparr>writeUdc = True, stopMonitor = False, disconnect = 0\<rparr>, waiting_gadget)
     = Some (monitorFfs_input happy_env (Inotify [7, 7]) (\<lparr>writeUdc = True, stopMonitor = False, disconnect = 0\<rparr>, waiting_gadget))"
proof -
  have "list_all event_ok example_events" by (simp add: example_events_def event_ok_def)
  from inotify_buffer_handled [OF this, of happy_env "\<lambda>k. 7"] show ?thesis by (simp add: example_events_def)
qed

end
