(* ===== verification/Libshim.thy ===== *)
theory Libshim
  imports Camellia_Prelude
begin

text \<open>
  The audio sink shim of \<open>src/libshims/libshim_sink.cpp\<close>. A vendor library calls a constructor of \<open>AudioTrack\<close>
  that takes one more string than the one the platform has; the shim has the name of the former and
  calls the latter, which is a parameter here, on the same object.
\<close>

definition AudioTrack_shim where
  "AudioTrack_shim AudioTrack thisptr streamType sampleRate format channelMask frameCount flags callback
     notificationFrames sessionId transferType offloadInfo attributionSource pAttributes doNotReconnect
     maxRequiredSpeed selectedDeviceId unknown =
   AudioTrack thisptr streamType sampleRate format channelMask frameCount flags callback
     notificationFrames sessionId transferType offloadInfo attributionSource pAttributes doNotReconnect
     maxRequiredSpeed selectedDeviceId"

end
