(* ===== verification/Spec2Isabelle.thy ===== *)
theory Spec2Isabelle
  imports Services Libinit Power_Mode Inotify Libshim
begin

text \<open>
  Verification of the native code of the Xiaomi camellia device tree.

  \<^bold>\<open>The program.\<close> The repository holds the C++ code that runs on the device beside the Android
  framework: the sensors multi-HAL (\<open>src/sensors\<close>), the USB port and gadget HALs (\<open>src/usb\<close>), the
  fingerprint HAL (\<open>src/fingerprint\<close>), the property overrides that \<open>init\<close> applies at boot
  (\<open>src/libinit\<close>) and the double-tap-to-wake extension of the power HAL (\<open>src/power\<close>). The parts run in
  different processes and share no state; each service process constructs its objects, registers
  them and serves requests of the framework. Inside a process a HAL has threads of its own: the sensors
  proxy a writer and a wake lock thread, the USB port HAL a uevent worker, the USB gadget HAL a
  monitor of its endpoint files.

  \<^bold>\<open>The theories.\<close>
  \<^item> \<open>Camellia_Prelude\<close>: machine integer types, lemma collections, reachable states with the locales
    \<open>transition_invariant\<close> and \<open>refinement\<close>, lemmas on words and lists. \<open>Std_Map\<close>: \<open>std::map\<close> as a sorted association list
    behind a locale. \<open>Cpp_String\<close>: the string operations of the C++ and C libraries that the code uses, with
    positions of type \<open>size_t\<close>.
  \<^item> \<open>Sensor_Handles\<close>: the sub-HAL index in the first byte of a sensor handle (\<open>HalProxy.cpp\<close>,
    \<open>HalProxyCallback.cpp\<close>), an interface \<open>handles\<close> that the later theories use.
    \<open>Sensor_List\<close>: static and dynamic sensors, the pick-up patch, direct channel flags.
    \<open>Wakelock\<close>: reference count, time-out and thread of the shared wake lock. \<open>Event_Channel\<close>: the specification
    of the event path, a bounded first-in-first-out channel. \<open>Event_Queue\<close>: posting
    events, the queue of pending writes and the writer thread, and all threads together as the relation
    \<open>pipeline_step\<close>, which refines the channel. \<open>Hal_Callback\<close>: tagging and filtering of the events a sub-HAL posts.
    \<open>Hal_Proxy\<close>: dispatch of requests, operation mode, direct channels, stopping and initialising.
    \<open>Hal_Loader\<close>: the configuration file, the loading of libraries, constructors, debug dump.
    \<open>Hal_Threads\<close>: the proxy with the condition variables of its threads, posts and initialisations under way, and the
    relations \<open>thread_step\<close>, \<open>session_step\<close> (all entry points and threads) and \<open>spurious_wakeup\<close>.
    \<open>Hal_Session\<close>: what holds over the whole life of the proxy.
  \<^item> \<open>Libinit\<close>: \<open>property_override\<close> up to \<open>vendor_load_properties\<close>, the variant table, the heap table.
  \<^item> \<open>Usb_Port\<close>: reading the type-C nodes, roles, port names, the status vector (\<open>Usb.cpp\<close>).
    \<open>Usb\<close>: role switches, uevents, the worker thread, callbacks. \<open>Usb_Session\<close>: the threads together, with the signal
    to the worker and the join, as the relation \<open>usb_step\<close>.
  \<^item> \<open>Usb_Gadget\<close>: tear-down, ids, linking of functions, the endpoint monitor (\<open>UsbGadget.cpp\<close>).
    \<open>Inotify\<close>: the buffer of inotify events down to its bytes.
    \<open>Gadget_Session\<close>: the gadget over any sequence of requests, with the relations \<open>serve_step\<close> and \<open>gadget_step\<close>.
  \<^item> \<open>Fingerprint\<close>: opening the vendor module, requests, translation of codes, delivery of messages.
  \<^item> \<open>Power_Mode\<close>: the search for the touch screen and the event written to it.
  \<^item> \<open>Services\<close>: the \<open>main\<close> functions of the three service processes. \<open>Libshim\<close>: the audio sink shim.

  \<^bold>\<open>How code corresponds to definitions.\<close> A class is a record with the members of the class and a log of
  the calls that leave the class; a method is a definition of the same name that maps the
  state before to the state after, with its result. Machine integers are words; 64-bit times and \<open>int32_t\<close>
  codes are \<open>int\<close>. A null pointer is \<open>None\<close>; a
  dereference of one, a failed assertion, an out-of-range access or an overflow of a fixed buffer is an error
  value, so theorems say when it cannot happen. Code that waits is cut where it waits, and the pieces are
  the steps of a transition relation. The HIDL enumerations, the kernel, the binder library and vendor libraries
  are not part of the repository: they are records of parameters (\<open>sensor_consts\<close>, \<open>subhal_env\<close>,
  \<open>usb_env\<close>, \<open>gadget_env\<close>, \<open>fp_env\<close>, \<open>prop_api\<close>, \<open>loader_env\<close>, \<open>power_env\<close>) whose answers may depend on all
  earlier calls, and what is assumed of them is a named hypothesis with a concrete instance.

  \<^bold>\<open>What is shown.\<close>
  Sensors: the threads implement a bounded first-in-first-out channel, so no accepted event is lost or reordered on
  its way to the framework; the bookkeeping of the pending queue is exact, no wake-up of a thread is lost while
  the proxy runs, the threads never fault and a post only when the last initialisation had no event
  flag; the writer drains the queue, and a stop that reaches the threads completes (one that does not can hang, \<open>stop_can_hang\<close>);
  the wake lock is held exactly while events are unacknowledged, with the exceptions that are theorems of their
  own; the published list is sound and complete; a request reaches the owner of a handle with its own handle,
  or is refused; changing the operation mode is all or nothing; initialisation starts afresh,
  and the proxy stays consistent over any interleaving of its threads, sub-HALs and clients.
  libinit: the description derived from a build fingerprint, the properties of a variant, the heap limits.
  USB port: names and roles round-trip, the status vector lists each port once, a role switch is
  reported once and truthfully, uevents never read out of bounds and do not disturb a switch; a worker
  exists exactly while a callback is set, and removing the callback ends it unless the signal is missed
  (\<open>removal_can_hang\<close>).
  USB gadget: one report per request, the links made are the functions requested, path buffers suffice,
  tear-down leaves nothing, at most one monitor runs, it never pulls up blindly, it reads its event buffer record by record,
  and a query says that the functions are applied only while the gadget is pulled up.
  Fingerprint: the first usable module is taken, codes can be read back, every message is
  delivered once and in order. Power: the first touch screen gets the event, no descriptor leaks.

  \<^bold>\<open>Bounds.\<close> Loops over data are structural recursion; \<open>uevent_loop\<close>, \<open>inotify_loop\<close> and \<open>stream_words\<close> have measures. Loops
  that wait for events take the list of the events as an argument instead of fuel, and the theorems
  hold for all such lists; where a wait may go on for ever this is stated.

  \<^bold>\<open>Not modelled.\<close> The text of log messages other than the debug output of an inotify event; times spent in \<open>usleep\<close>; failures of
  a callback into the framework, which are only logged. Interleavings inside a section that holds a mutex
  are not distinguished, and calls of \<open>setCallback\<close> of the USB HAL do not overlap in its state machine
  (\<open>overlapping_callbacks\<close> shows what happens if they do). Declarations in headers, configuration files, overlays and policies of the
  device tree are not code of their own.
\<close>

section \<open>Sensors: from the configuration file to a request and back\<close>


text \<open>One library, whose sub-HAL reports a pick-up sensor.\<close>

definition example_built :: halproxy where
  "example_built = HalProxy_from_config aosp_consts loader_example (\<lambda>_. [example_pickup])
     (example_proxy\<lparr>mSubHalList := [], mSensors := [], mDirectChannelSubHal := None\<rparr>)"

definition example_pick_up_gesture :: SensorInfo where
  "example_pick_up_gesture = example_pickup\<lparr>sensorType := 25,
     typeAsString := ''android.sensor.pick_up_gesture'', maxRange := 1\<rparr>"

lemma example_built_list:
  "length (mSubHalList example_built) = 1" "getSensorsList_2_1 example_built = [example_pick_up_gesture]"
proof -
  let ?s = "initializeSubHalListFromConfigFile loader_example kMultiHalConfigFile
      (example_proxy\<lparr>mSubHalList := [], mSensors := [], mDirectChannelSubHal := None\<rparr>)"
  have l: "mSubHalList ?s = [SubHalWrapperV2_1 ''A'']" by (simp add: loader_example_list)
  have m: "mSensors ?s = []" "mDirectChannelSubHal ?s = None"
    by (simp_all add: initializeSubHalListFromConfigFile_def split: option.splits)
  have b: "example_built = initializeSensorList aosp_consts [[example_pickup]] ?s"
    by (simp add: example_built_def HalProxy_from_config_def init_proxy_def l)
  show "length (mSubHalList example_built) = 1" by (simp add: b l)
  show "getSensorsList_2_1 example_built = [example_pick_up_gesture]"
    unfolding b
    by (simp add: m getSensorsList_2_1_def initializeSensorList_def load_sensor_defs example_defs direct_mask_def
        xiaomi_pick_up_def subHalIndexIsClear_def setSubHalIndex_def kBitsAfterSubHalIndex_def example_pick_up_gesture_def)
qed


end
